theory Spec2Isabelle
  imports Complex_Main
begin

text \<open>
  A model of the structured-output pipeline of the plan generator: the output sanitizer
  and the JSON extractor of \<open>shared.ts\<close>, the generation client and the repair
  controller built on them, and the outline and step normalization and the persistence
  of the steps in \<open>generate_plan.ts\<close>. Every function of the source is a function here
  under its own name; an exception is a value \<open>Inl e\<close>, and what a function changes (the
  requests sent upstream, the deltas delivered, the rows of the datastore) is passed in and
  returned. The definitions come first, the proofs after them.
\<close>

section \<open>JavaScript values\<close>

text \<open>
  A JavaScript string is a sequence of UTF-16 code units; \<open>length\<close>, \<open>slice\<close>,
  \<open>indexOf\<close> and the regular expressions of the source all count code units. A string is
  therefore a list of code units (natural numbers), and \<open>str\<close> turns an ASCII literal
  into one.
\<close>

type_synonym jsstring = "nat list"

definition str :: "string \<Rightarrow> jsstring" where
  "str s = map of_char s"

text \<open>
  A JavaScript number is an IEEE double. The source only tests numbers for finiteness,
  truncates, compares and takes minima and maxima; all of these are exact on doubles, so a
  finite number is modelled by the rational it denotes.
\<close>

datatype jsnum = NaN | PosInfinity | NegInfinity | Finite rat

text \<open>
  The values \<open>JSON.parse\<close> produces. An object is the list of its own properties, each
  name once. \<open>undefined\<close> (a missing property) is \<open>None\<close> of \<open>json option\<close>.
\<close>

datatype json =
    JNull
  | JBool bool
  | JNum jsnum
  | JStr jsstring
  | JArr "json list"
  | JObj "(jsstring \<times> json) list"

datatype error =
    SyntaxError
  | TypeError
  | FetchFailed
  | ReadFailed
  | OllamaError nat jsstring
  | NoBody
  | NoContent
  | NonJSONAfterRepair jsstring jsstring
  | MissingDetails jsstring
  | MissingSuccessCriteria jsstring

text \<open>
  The built-ins of the JavaScript platform that the source calls and that are not code of
  the repository: \<open>JSON.parse\<close> (\<open>None\<close> when it throws a SyntaxError), the conversion
  of a string to a number inside \<open>Number(..)\<close>, the conversion of a number to a string
  inside \<open>String(..)\<close>, and \<open>String.prototype.toLowerCase\<close>. They are parameters of the
  model: every theorem below holds for whatever they compute.
\<close>

record platform =
  JSON_parse :: "jsstring \<Rightarrow> json option"
  StringToNumber :: "jsstring \<Rightarrow> jsnum"
  NumberToString :: "jsnum \<Rightarrow> jsstring"
  toLowerCase :: "jsstring \<Rightarrow> jsstring"

text \<open>\<open>v?.key\<close> for the property names the source reads (none of them is a built-in
  property of a string, number, boolean or array, so only an object can have one).\<close>

fun get_prop :: "json option \<Rightarrow> jsstring \<Rightarrow> json option" where
  "get_prop (Some (JObj kvs)) k = map_of kvs k"
| "get_prop _ k = None"

text \<open>\<open>a ?? b\<close>: \<open>b\<close> replaces \<open>null\<close> and \<open>undefined\<close> only.\<close>

fun nullish :: "json option \<Rightarrow> json \<Rightarrow> json" where
  "nullish None d = d"
| "nullish (Some JNull) d = d"
| "nullish (Some v) d = v"

text \<open>What \<open>if (v)\<close> tests.\<close>

fun truthy :: "json \<Rightarrow> bool" where
  "truthy JNull = False"
| "truthy (JBool b) = b"
| "truthy (JNum n) = (n \<noteq> NaN \<and> n \<noteq> Finite 0)"
| "truthy (JStr s) = (s \<noteq> [])"
| "truthy (JArr xs) = True"
| "truthy (JObj kvs) = True"

fun truthy_opt :: "json option \<Rightarrow> bool" where
  "truthy_opt None = False"
| "truthy_opt (Some v) = truthy v"

fun join :: "jsstring \<Rightarrow> jsstring list \<Rightarrow> jsstring" where
  "join sep [] = []"
| "join sep [x] = x"
| "join sep (x # y # ys) = x @ sep @ join sep (y # ys)"

text \<open>\<open>String(v)\<close>. An array joins the strings of its elements with commas, \<open>null\<close>
  elements giving the empty string; a plain object gives \<open>[object Object]\<close>.\<close>

fun js_String :: "platform \<Rightarrow> json \<Rightarrow> jsstring" where
  "js_String P JNull = str ''null''"
| "js_String P (JBool b) = (if b then str ''true'' else str ''false'')"
| "js_String P (JNum n) = NumberToString P n"
| "js_String P (JStr s) = s"
| "js_String P (JArr xs) =
     join (str '','') (map (\<lambda>x. if x = JNull then [] else js_String P x) xs)"
| "js_String P (JObj kvs) = str ''[object Object]''"

text \<open>\<open>Number(v)\<close>.\<close>

fun js_Number :: "platform \<Rightarrow> json \<Rightarrow> jsnum" where
  "js_Number P JNull = Finite 0"
| "js_Number P (JBool b) = (if b then Finite 1 else Finite 0)"
| "js_Number P (JNum n) = n"
| "js_Number P (JStr s) = StringToNumber P s"
| "js_Number P (JArr xs) = StringToNumber P (js_String P (JArr xs))"
| "js_Number P (JObj kvs) = NaN"

section \<open>String built-ins with a fixed meaning\<close>

text \<open>The code units that \<open>\s\<close> matches and that \<open>trim\<close> removes (WhiteSpace and
  LineTerminator of ECMAScript).\<close>

definition is_space :: "nat \<Rightarrow> bool" where
  "is_space c \<longleftrightarrow>
     c = 9 \<or> c = 10 \<or> c = 11 \<or> c = 12 \<or> c = 13 \<or> c = 32 \<or> c = 160 \<or> c = 5760 \<or>
     (8192 \<le> c \<and> c \<le> 8202) \<or> c = 8232 \<or> c = 8233 \<or> c = 8239 \<or> c = 8287 \<or>
     c = 12288 \<or> c = 65279"

definition trim :: "jsstring \<Rightarrow> jsstring" where
  "trim s = rev (dropWhile is_space (rev (dropWhile is_space s)))"

text \<open>\<open>s.indexOf(c)\<close> and \<open>s.lastIndexOf(c)\<close> for a one-unit search string, \<open>-1\<close> when
  it does not occur; \<open>s.lastIndexOf(c, pos)\<close> finds the last occurrence at an index
  \<open>\<le> pos\<close>.\<close>

fun indexOf :: "jsstring \<Rightarrow> nat \<Rightarrow> int" where
  "indexOf [] c = -1"
| "indexOf (x # xs) c =
     (if x = c then 0 else (let r = indexOf xs c in if r = -1 then -1 else r + 1))"

definition lastIndexOf :: "jsstring \<Rightarrow> nat \<Rightarrow> int" where
  "lastIndexOf s c =
     (let r = indexOf (rev s) c in if r = -1 then -1 else int (length s) - 1 - r)"

definition lastIndexOf_from :: "jsstring \<Rightarrow> nat \<Rightarrow> nat \<Rightarrow> int" where
  "lastIndexOf_from s c pos = lastIndexOf (take (Suc pos) s) c"

text \<open>\<open>s.slice(a, b)\<close> for non-negative integers \<open>a\<close> and \<open>b\<close>.\<close>

definition slice :: "jsstring \<Rightarrow> nat \<Rightarrow> nat \<Rightarrow> jsstring" where
  "slice s a b = take (b - a) (drop a s)"

text \<open>A regular expression with the flag \<open>i\<close> and without \<open>u\<close> lets an ASCII letter of
  the pattern match exactly its two ASCII cases. \<open>matches_ci pat s\<close>: the lower-case
  ASCII pattern \<open>pat\<close> matches at the start of \<open>s\<close>.\<close>

definition ascii_lower :: "nat \<Rightarrow> nat" where
  "ascii_lower c = (if 65 \<le> c \<and> c \<le> 90 then c + 32 else c)"

definition matches_ci :: "jsstring \<Rightarrow> jsstring \<Rightarrow> bool" where
  "matches_ci pat s \<longleftrightarrow> length pat \<le> length s \<and> map ascii_lower (take (length pat) s) = pat"



section \<open>shared.ts: generic utils\<close>

text \<open>\<open>Math.trunc\<close> rounds towards zero.\<close>

definition trunc :: "rat \<Rightarrow> int" where
  "trunc q = (if q < 0 then \<lceil>q\<rceil> else \<lfloor>q\<rfloor>)"

text \<open>\<open>clampInt\<close>; every call passes integer bounds.\<close>

definition clampInt :: "jsnum \<Rightarrow> int \<Rightarrow> int \<Rightarrow> int" where
  "clampInt n min_v max_v =
     (case n of
        Finite q \<Rightarrow> min max_v (max min_v (trunc q))
      | _ \<Rightarrow> min_v)"

text \<open>\<open>normalizePriority\<close>; the argument is \<open>raw?.priority\<close>, which may be
  \<open>undefined\<close>.\<close>

definition normalizePriority :: "platform \<Rightarrow> json option \<Rightarrow> jsstring" where
  "normalizePriority P v =
     (let s = trim (toLowerCase P (js_String P (nullish v (JStr []))))
      in if s = str ''low'' \<or> s = str ''medium'' \<or> s = str ''high'' then s
         else str ''medium'')"

text \<open>\<open>s.replace(/\s+/g, " ")\<close>. Code unit 32 is the space.\<close>

function collapse_ws :: "jsstring \<Rightarrow> jsstring" where
  "collapse_ws [] = []"
| "collapse_ws (c # cs) =
     (if is_space c then 32 # collapse_ws (dropWhile is_space cs) else c # collapse_ws cs)"
  by pat_completeness auto
termination
proof (relation "measure length", goal_cases)
  case 1
  show ?case by simp
next
  case (2 c cs)
  have "length (dropWhile is_space cs) \<le> length cs" by (rule length_dropWhile_le)
  then show ?case by simp
next
  case (3 c cs)
  show ?case by simp
qed

text \<open>The curly double quotes U+201C and U+201D become \<open>"\<close> (34); the curly single
  quotes U+2018 and U+2019 become \<open>'\<close> (39).\<close>

definition straighten_double :: "jsstring \<Rightarrow> jsstring" where
  "straighten_double s = map (\<lambda>c. if c = 8220 \<or> c = 8221 then 34 else c) s"

definition straighten_single :: "jsstring \<Rightarrow> jsstring" where
  "straighten_single s = map (\<lambda>c. if c = 8216 \<or> c = 8217 then 39 else c) s"

text \<open>
  The pattern \<open>/'\s*(end-user|thelived|ty)\b/gi\<close>. \<open>garbage_match s\<close> is the length of
  its match at the start of \<open>s\<close>, if there is one. The alternatives start with a letter,
  so \<open>\s*\<close> takes all the white space; they end with a word character, so \<open>\b\<close> holds
  when the input ends or goes on with a character that is not one of
  \<open>A-Z a-z 0-9 _\<close>.
\<close>

definition is_word :: "nat \<Rightarrow> bool" where
  "is_word c \<longleftrightarrow> (48 \<le> c \<and> c \<le> 57) \<or> (65 \<le> c \<and> c \<le> 90) \<or> c = 95 \<or> (97 \<le> c \<and> c \<le> 122)"

definition at_boundary :: "jsstring \<Rightarrow> bool" where
  "at_boundary rest = (case rest of [] \<Rightarrow> True | c # cs \<Rightarrow> \<not> is_word c)"

definition garbage_match :: "jsstring \<Rightarrow> nat option" where
  "garbage_match s =
     (case s of
        [] \<Rightarrow> None
      | c # cs \<Rightarrow>
          if c \<noteq> 39 then None
          else
            (let r = dropWhile is_space cs;
                 n = 1 + (length cs - length r)
             in if matches_ci (str ''end-user'') r \<and> at_boundary (drop 8 r) then Some (n + 8)
                else if matches_ci (str ''thelived'') r \<and> at_boundary (drop 8 r) then Some (n + 8)
                else if matches_ci (str ''ty'') r \<and> at_boundary (drop 2 r) then Some (n + 2)
                else None))"

text \<open>\<open>t.replace(/'\s*(end-user|thelived|ty)\b/gi, "")\<close>: one pass from the left.\<close>

function remove_garbage :: "jsstring \<Rightarrow> jsstring" where
  "remove_garbage [] = []"
| "remove_garbage (c # cs) =
     (case garbage_match (c # cs) of
        Some n \<Rightarrow> remove_garbage (drop n (c # cs))
      | None \<Rightarrow> c # remove_garbage cs)"
  by pat_completeness auto
termination
proof (relation "measure length", goal_cases)
  case 1
  show ?case by simp
next
  case (2 c cs)
  show ?case by simp
next
  case (3 c cs n)
  then have "0 < n"
    by (auto simp: garbage_match_def Let_def split: if_splits)
  then show ?case by (cases n) simp_all
qed

text \<open>\<open>/[.!?]$/.test(t)\<close>: the last code unit is \<open>.\<close> (46), \<open>!\<close> (33) or \<open>?\<close> (63).\<close>

definition ends_terminal :: "jsstring \<Rightarrow> bool" where
  "ends_terminal t = (case rev t of [] \<Rightarrow> False | c # cs \<Rightarrow> c = 46 \<or> c = 33 \<or> c = 63)"

text \<open>\<open>cleanText\<close>. The callers pass any JSON value for \<open>s\<close>, which \<open>String(s ?? "")\<close>
  turns into a string; \<open>maxLen\<close> is a non-negative integer (120 and 110 at the call
  sites).\<close>

definition cleanText :: "platform \<Rightarrow> json \<Rightarrow> nat \<Rightarrow> jsstring" where
  "cleanText P s maxLen =
     (let t0 = trim (straighten_single (straighten_double
                 (collapse_ws (js_String P (nullish (Some s) (JStr []))))));
          t1 = remove_garbage t0;
          t2 = trim (collapse_ws t1);
          t3 = (if length t2 > maxLen
                then (let cut = lastIndexOf_from t2 32 maxLen
                      in trim (if cut > 20 then slice t2 0 (nat cut) else slice t2 0 maxLen))
                else t2)
      in if t3 \<noteq> [] \<and> \<not> ends_terminal t3 then t3 @ str ''.'' else t3)"

section \<open>shared.ts: JSON parsing helpers\<close>

text \<open>\<open>s.replace(/```json\s*/gi, "")\<close>: scanning from the left, every match is removed
  and the scan goes on behind it.\<close>

function remove_json_fences :: "jsstring \<Rightarrow> jsstring" where
  "remove_json_fences [] = []"
| "remove_json_fences (c # cs) =
     (if matches_ci (str ''```json'') (c # cs)
      then remove_json_fences (dropWhile is_space (drop 7 (c # cs)))
      else c # remove_json_fences cs)"
  by pat_completeness auto
termination
proof (relation "measure length")
  show "wf (measure length)" by simp
next
  fix c :: nat and cs :: jsstring
  have "length (dropWhile is_space (drop 7 (c # cs))) \<le> length (drop 7 (c # cs))"
    by (rule length_dropWhile_le)
  also have "\<dots> < length (c # cs)" by simp
  finally show "(dropWhile is_space (drop 7 (c # cs)), c # cs) \<in> measure length" by simp
next
  fix c :: nat and cs :: jsstring
  show "(cs, c # cs) \<in> measure length" by simp
qed

text \<open>\<open>s.replace(/```/g, "")\<close>.\<close>

fun remove_fences :: "jsstring \<Rightarrow> jsstring" where
  "remove_fences (a # b # c # cs) =
     (if a = 96 \<and> b = 96 \<and> c = 96 then remove_fences cs else a # remove_fences (b # c # cs))"
| "remove_fences cs = cs"

definition stripFences :: "jsstring \<Rightarrow> jsstring" where
  "stripFences s = trim (remove_fences (remove_json_fences s))"

definition startsWith :: "jsstring \<Rightarrow> nat \<Rightarrow> bool" where
  "startsWith t c \<longleftrightarrow> (case t of [] \<Rightarrow> False | x # xs \<Rightarrow> x = c)"

definition endsWith :: "jsstring \<Rightarrow> nat \<Rightarrow> bool" where
  "endsWith t c \<longleftrightarrow> (case rev t of [] \<Rightarrow> False | x # xs \<Rightarrow> x = c)"

text \<open>Code units: \<open>{\<close> is 123, \<open>}\<close> is 125, \<open>[\<close> is 91, \<open>]\<close> is 93.\<close>

definition maybeTruncatedJSON :: "jsstring \<Rightarrow> bool" where
  "maybeTruncatedJSON s =
     (let t = trim s in
      if t = [] then True
      else (let startsJSON = (startsWith t 123 \<or> startsWith t 91);
                endsJSON = (endsWith t 125 \<or> endsWith t 93)
            in startsJSON \<and> \<not> endsJSON))"

text \<open>A call of \<open>JSON.parse\<close>: it returns the value or throws.\<close>

definition JSON_parse_call :: "platform \<Rightarrow> jsstring \<Rightarrow> error + json" where
  "JSON_parse_call P s = (case JSON_parse P s of None \<Rightarrow> Inl SyntaxError | Some v \<Rightarrow> Inr v)"

text \<open>
  One of the two inner \<open>try\<close> blocks of \<open>tryParseJSON\<close>: the span from the first
  \<open>opener\<close> to the last \<open>closer\<close> is parsed when both occur in this order. The result
  is the parsed value, if any, and the log of \<open>JSON.parse\<close> arguments extended.
\<close>

definition try_span ::
  "platform \<Rightarrow> jsstring \<Rightarrow> nat \<Rightarrow> nat \<Rightarrow> jsstring list \<Rightarrow> json option \<times> jsstring list" where
  "try_span P stripped opener closer seen =
     (let fb = indexOf stripped opener;
          lb = lastIndexOf stripped closer
      in if fb \<noteq> -1 \<and> lb \<noteq> -1 \<and> lb > fb
         then (let span = slice stripped (nat fb) (nat (lb + 1))
               in case JSON_parse_call P span of
                    Inr v \<Rightarrow> (Some v, seen @ [span])
                  | Inl e \<Rightarrow> (None, seen @ [span]))
         else (None, seen))"

text \<open>
  \<open>tryParseJSON\<close>. The result is what the function returns (\<open>Inr\<close>) or throws
  (\<open>Inl\<close>), paired with the arguments of the calls of \<open>JSON.parse\<close> it made, in order.
  \<open>null\<close> is the function's "none".
\<close>

definition tryParseJSON_log :: "platform \<Rightarrow> jsstring \<Rightarrow> (error + json) \<times> jsstring list" where
  "tryParseJSON_log P raw =
     (if raw = [] then (Inr JNull, [])
      else
        (let stripped = stripFences raw in
         if maybeTruncatedJSON stripped then (Inr JNull, [])
         else
           (case JSON_parse_call P stripped of
              Inr v \<Rightarrow> (Inr v, [stripped])
            | Inl e \<Rightarrow>
                (case try_span P stripped 123 125 [stripped] of
                   (Some v, log1) \<Rightarrow> (Inr v, log1)
                 | (None, log1) \<Rightarrow>
                     (case try_span P stripped 91 93 log1 of
                        (Some v, log2) \<Rightarrow> (Inr v, log2)
                      | (None, log2) \<Rightarrow> (Inr JNull, log2))))))"

definition tryParseJSON :: "platform \<Rightarrow> jsstring \<Rightarrow> error + json" where
  "tryParseJSON P raw = fst (tryParseJSON_log P raw)"

text \<open>\<open>tryParseJSON\<close> applied to a value that need not be a string (the content field of
  an upstream response is typed \<open>any\<close>): a falsy value returns \<open>null\<close> at the first
  line, and any other value that is not a string has no method \<open>replace\<close>, so
  \<open>stripFences\<close> throws a TypeError.\<close>

definition tryParseJSON_value :: "platform \<Rightarrow> json \<Rightarrow> error + json" where
  "tryParseJSON_value P v =
     (case v of
        JStr s \<Rightarrow> tryParseJSON P s
      | _ \<Rightarrow> if truthy v then Inl TypeError else Inr JNull)"

section \<open>shared.ts: Ollama helpers\<close>

text \<open>
  The inference service is outside the repository. One \<open>fetch\<close> either throws (network
  failure, or the abort that the timeout triggers) or yields a response with a status and
  a body; reading the body yields chunks of text and may fail. The service is a
  parameter: \<open>up n req\<close> is what the \<open>n\<close>-th upstream call of a run receives when it
  sends \<open>req\<close>. The state threaded through the calls is the list of requests sent so far.
\<close>

record request =
  req_url :: jsstring
  req_model :: jsstring
  req_prompt :: jsstring
  req_num_predict :: int
  req_stream :: bool

datatype read_result = Chunk jsstring | ReadError

datatype http = FetchThrows | Response nat "read_result list option"

type_synonym upstream = "nat \<Rightarrow> request \<Rightarrow> http"

definition res_ok :: "nat \<Rightarrow> bool" where
  "res_ok status \<longleftrightarrow> 200 \<le> status \<and> status \<le> 299"

fun chunks_text :: "read_result list \<Rightarrow> error + jsstring" where
  "chunks_text [] = Inr []"
| "chunks_text (ReadError # rest) = Inl ReadFailed"
| "chunks_text (Chunk v # rest) =
     (case chunks_text rest of Inl e \<Rightarrow> Inl e | Inr t \<Rightarrow> Inr (v @ t))"

text \<open>\<open>res.text()\<close>: the whole body as one string.\<close>

definition res_text :: "read_result list option \<Rightarrow> error + jsstring" where
  "res_text body = (case body of None \<Rightarrow> Inr [] | Some reads \<Rightarrow> chunks_text reads)"

record chat_params =
  ollamaUrl :: jsstring
  model :: jsstring
  prompt :: jsstring
  num_predict :: int
  timeoutMs :: int

text \<open>The request a generation call sends.\<close>

definition request_of :: "chat_params \<Rightarrow> bool \<Rightarrow> request" where
  "request_of p streaming =
     \<lparr> req_url = ollamaUrl p, req_model = model p, req_prompt = prompt p,
       req_num_predict = num_predict p, req_stream = streaming \<rparr>"

definition ollamaChat ::
  "platform \<Rightarrow> upstream \<Rightarrow> chat_params \<Rightarrow> request list \<Rightarrow> (error + json) \<times> request list" where
  "ollamaChat P up p calls =
     (let req = request_of p False;
          calls' = calls @ [req]
      in case up (length calls) req of
           FetchThrows \<Rightarrow> (Inl FetchFailed, calls')
         | Response status body \<Rightarrow>
             (if \<not> res_ok status
              then (case res_text body of
                      Inl e \<Rightarrow> (Inl e, calls')
                    | Inr text \<Rightarrow> (Inl (OllamaError status text), calls'))
              else (case res_text body of
                      Inl e \<Rightarrow> (Inl e, calls')
                    | Inr text \<Rightarrow>
                        (case JSON_parse_call P text of
                           Inl e \<Rightarrow> (Inl e, calls')
                         | Inr json \<Rightarrow>
                             (case get_prop (get_prop (Some json) (str ''message'')) (str ''content'') of
                                None \<Rightarrow> (Inl NoContent, calls')
                              | Some content \<Rightarrow>
                                  if \<not> truthy content then (Inl NoContent, calls')
                                  else (Inr content, calls'))))))"

record call_params =
  cp_ollamaUrl :: jsstring
  cp_model :: jsstring
  cp_prompt :: jsstring
  cp_num_predict :: int
  cp_timeoutMs :: int
  cp_repairModel :: jsstring
  cp_repairNumPredict :: int
  cp_repairTimeoutMs :: int
  cp_requiredKeys :: "jsstring list option"

text \<open>The parameter objects of the two generation calls of \<open>callJSON\<close> and
  \<open>callJSONStream\<close>.\<close>

definition primary_chat :: "call_params \<Rightarrow> chat_params" where
  "primary_chat p =
     \<lparr> ollamaUrl = cp_ollamaUrl p, model = cp_model p, prompt = cp_prompt p,
       num_predict = cp_num_predict p, timeoutMs = cp_timeoutMs p \<rparr>"

definition repair_chat :: "call_params \<Rightarrow> jsstring \<Rightarrow> chat_params" where
  "repair_chat p repairPrompt =
     \<lparr> ollamaUrl = cp_ollamaUrl p, model = cp_repairModel p, prompt = repairPrompt,
       num_predict = cp_repairNumPredict p, timeoutMs = cp_repairTimeoutMs p \<rparr>"

text \<open>\<open>requiredKeys?.length\<close> is truthy when the keys are given and not empty.\<close>

definition has_keys :: "jsstring list option \<Rightarrow> bool" where
  "has_keys ks = (case ks of None \<Rightarrow> False | Some l \<Rightarrow> l \<noteq> [])"

definition keys_joined :: "jsstring list option \<Rightarrow> jsstring" where
  "keys_joined ks = (case ks of None \<Rightarrow> [] | Some l \<Rightarrow> join (str '', '') l)"

definition callJSON_repairPrompt :: "platform \<Rightarrow> jsstring list option \<Rightarrow> json \<Rightarrow> jsstring" where
  "callJSON_repairPrompt P ks a1 =
     (let keysLine =
        (if has_keys ks
         then str ''Fix the JSON so it parses and contains these keys:
'' @ keys_joined ks @ str ''.''
         else str ''Fix the JSON so it parses.'')
      in str ''Return ONLY corrected MINIFIED JSON on one line.
No extra keys. No markdown.

'' @ keysLine @ str ''

MALFORMED OUTPUT:
'' @ js_String P a1)"

definition callJSON ::
  "platform \<Rightarrow> upstream \<Rightarrow> call_params \<Rightarrow> request list \<Rightarrow> (error + json) \<times> request list" where
  "callJSON P up p calls =
     (case ollamaChat P up (primary_chat p) calls of
        (Inl e, calls1) \<Rightarrow> (Inl e, calls1)
      | (Inr a1, calls1) \<Rightarrow>
          (case tryParseJSON_value P a1 of
             Inl e \<Rightarrow> (Inl e, calls1)
           | Inr p1 \<Rightarrow>
               if truthy p1 then (Inr p1, calls1)
               else
                 (case ollamaChat P up
                         (repair_chat p (callJSON_repairPrompt P (cp_requiredKeys p) a1))
                         calls1 of
                    (Inl e, calls2) \<Rightarrow> (Inl e, calls2)
                  | (Inr r, calls2) \<Rightarrow>
                      (case tryParseJSON_value P r of
                         Inl e \<Rightarrow> (Inl e, calls2)
                       | Inr pr \<Rightarrow>
                           if truthy pr then (Inr pr, calls2)
                           else (Inl (NonJSONAfterRepair (slice (js_String P a1) 0 500)
                                                         (slice (js_String P r) 0 500)),
                                 calls2)))))"

text \<open>
  The inner \<open>while\<close> loop of \<open>ollamaChatStream\<close>: it takes the complete lines off the
  buffer one by one. A line that does not parse is ignored; a non-empty delta is appended
  to \<open>full\<close> and passed to \<open>onToken\<close>; a record with a truthy \<open>done\<close> leaves
  this loop. \<open>onToken\<close> is the caller's callback: the model records the deltas passed to
  it, in order, and takes it not to throw. \<open>onRawLine\<close> is optional and no caller in the
  repository passes it. The result is the buffer left, the text accumulated and the deltas
  delivered. Code unit 10 is the newline.
\<close>

function process_lines ::
  "platform \<Rightarrow> jsstring \<Rightarrow> jsstring \<Rightarrow> json list \<Rightarrow> jsstring \<times> jsstring \<times> json list" where
  "process_lines P buf full toks =
     (let nl = indexOf buf 10 in
      if nl = -1 then (buf, full, toks)
      else
        (let line = trim (slice buf 0 (nat nl));
             buf' = drop (nat nl + 1) buf
         in if line = [] then process_lines P buf' full toks
            else
              (case JSON_parse_call P line of
                 Inl e \<Rightarrow> process_lines P buf' full toks
               | Inr obj \<Rightarrow>
                   (let delta = nullish (get_prop (get_prop (Some obj) (str ''message''))
                                                  (str ''content'')) (JStr []);
                        full' = (if truthy delta then full @ js_String P delta else full);
                        toks' = (if truthy delta then toks @ [delta] else toks)
                    in if truthy_opt (get_prop (Some obj) (str ''done''))
                       then (buf', full', toks')
                       else process_lines P buf' full' toks'))))"
  by pat_completeness auto
termination
proof (relation "measure (\<lambda>(P, buf, full, toks). length buf)", goal_cases)
  case 1
  show ?case by simp
next
  case (2 P buf full toks nl line buf')
  then have "buf \<noteq> []" by (cases buf) auto
  with 2 show ?case by simp
next
  case (3 P buf full toks nl line buf' e)
  then have "buf \<noteq> []" by (cases buf) auto
  with 3 show ?case by simp
next
  case (4 P buf full toks nl line buf' obj delta full' toks')
  then have "buf \<noteq> []" by (cases buf) auto
  with 4 show ?case by simp
qed

declare process_lines.simps [simp del]

text \<open>The outer \<open>while (true)\<close> loop: one iteration per \<open>reader.read()\<close>. The stream's
  end returns \<open>full\<close>; a chunk is appended to the buffer and the inner loop runs.\<close>

fun read_loop ::
  "platform \<Rightarrow> read_result list \<Rightarrow> jsstring \<Rightarrow> jsstring \<Rightarrow> json list \<Rightarrow>
   (error + jsstring) \<times> json list" where
  "read_loop P [] buf full toks = (Inr full, toks)"
| "read_loop P (ReadError # rest) buf full toks = (Inl ReadFailed, toks)"
| "read_loop P (Chunk v # rest) buf full toks =
     (case process_lines P (buf @ v) full toks of
        (buf', full', toks') \<Rightarrow> read_loop P rest buf' full' toks')"

definition ollamaChatStream ::
  "platform \<Rightarrow> upstream \<Rightarrow> chat_params \<Rightarrow> request list \<Rightarrow> json list \<Rightarrow>
   (error + jsstring) \<times> request list \<times> json list" where
  "ollamaChatStream P up p calls toks =
     (let req = request_of p True;
          calls' = calls @ [req]
      in case up (length calls) req of
           FetchThrows \<Rightarrow> (Inl FetchFailed, calls', toks)
         | Response status body \<Rightarrow>
             (if \<not> res_ok status
              then (case res_text body of
                      Inl e \<Rightarrow> (Inl e, calls', toks)
                    | Inr text \<Rightarrow> (Inl (OllamaError status text), calls', toks))
              else (case body of
                      None \<Rightarrow> (Inl NoBody, calls', toks)
                    | Some reads \<Rightarrow>
                        (case read_loop P reads [] [] toks of
                           (res, toks') \<Rightarrow> (res, calls', toks')))))"

definition callJSONStream_repairPrompt :: "jsstring list option \<Rightarrow> jsstring \<Rightarrow> jsstring" where
  "callJSONStream_repairPrompt ks raw1 =
     (let keysLine =
        (if has_keys ks
         then str ''Fix the JSON so it parses and contains these keys: '' @ keys_joined ks @ str ''.''
         else str ''Fix the JSON so it parses.'')
      in str ''Return ONLY corrected MINIFIED JSON on one line.
No extra keys. No markdown.
'' @ keysLine @ str ''

MALFORMED OUTPUT:
'' @ raw1)"

record stream_result =
  sr_parsed :: json
  sr_raw :: json

definition callJSONStream ::
  "platform \<Rightarrow> upstream \<Rightarrow> call_params \<Rightarrow> request list \<Rightarrow> json list \<Rightarrow>
   (error + stream_result) \<times> request list \<times> json list" where
  "callJSONStream P up p calls toks =
     (case ollamaChatStream P up (primary_chat p) calls toks of
        (Inl e, calls1, toks1) \<Rightarrow> (Inl e, calls1, toks1)
      | (Inr raw1, calls1, toks1) \<Rightarrow>
          (case tryParseJSON P raw1 of
             Inl e \<Rightarrow> (Inl e, calls1, toks1)
           | Inr p1 \<Rightarrow>
               if truthy p1 then (Inr \<lparr> sr_parsed = p1, sr_raw = JStr raw1 \<rparr>, calls1, toks1)
               else
                 (case ollamaChat P up
                         (repair_chat p (callJSONStream_repairPrompt (cp_requiredKeys p) raw1))
                         calls1 of
                    (Inl e, calls2) \<Rightarrow> (Inl e, calls2, toks1)
                  | (Inr raw2, calls2) \<Rightarrow>
                      (case tryParseJSON_value P raw2 of
                         Inl e \<Rightarrow> (Inl e, calls2, toks1)
                       | Inr p2 \<Rightarrow>
                           if truthy p2 then (Inr \<lparr> sr_parsed = p2, sr_raw = raw2 \<rparr>, calls2, toks1)
                           else (Inl (NonJSONAfterRepair (slice raw1 0 500)
                                                         (slice (js_String P raw2) 0 500)),
                                 calls2, toks1)))))"

section \<open>generate_plan.ts: normalization\<close>

record OutlineStep =
  os_step_key :: jsstring
  os_title :: jsstring

record OutlineResponse =
  step_count :: int
  steps :: "OutlineStep list"










record StepGen =
  sg_step_key :: jsstring
  sg_title :: jsstring
  sg_priority :: jsstring
  sg_details :: jsstring
  sg_success_criteria :: jsstring
  sg_estimated_minutes :: int

definition normalizeStepGen :: "platform \<Rightarrow> json \<Rightarrow> jsstring \<Rightarrow> jsstring \<Rightarrow> error + StepGen" where
  "normalizeStepGen P raw expectedKey expectedTitle =
     (let details = cleanText P (nullish (get_prop (Some raw) (str ''details'')) (JStr [])) 120;
          success_criteria =
            cleanText P (nullish (get_prop (Some raw) (str ''success_criteria'')) (JStr [])) 110;
          estimated_minutes =
            clampInt (js_Number P (nullish (get_prop (Some raw) (str ''estimated_minutes''))
                                           (JNum (Finite 30)))) 10 90;
          priority = normalizePriority P (get_prop (Some raw) (str ''priority''))
      in if details = [] then Inl (MissingDetails expectedKey)
         else if success_criteria = [] then Inl (MissingSuccessCriteria expectedKey)
         else Inr \<lparr> sg_step_key = expectedKey, sg_title = expectedTitle, sg_priority = priority,
                    sg_details = details, sg_success_criteria = success_criteria,
                    sg_estimated_minutes = estimated_minutes \<rparr>)"

section \<open>generate_plan.ts: persisting the steps\<close>

record StepRow =
  plan_id :: jsstring
  step_key :: jsstring
  order_index :: nat
  title :: jsstring
  details :: jsstring
  success_criteria :: jsstring
  priority :: jsstring
  estimated_minutes :: int
  status :: jsstring

text \<open>
  Modelled from the spec: the datastore collaborator (the Supabase client and the table
  \<open>plan_steps\<close> behind it), which is not code of the repository. Section 6 of the spec
  gives its interface: insert, filtered update and filtered delete, each of which may fail,
  a failure being a value and not an exception. The table is the list of its rows; a
  successful insert appends rows, a successful update changes the four content fields of
  the rows of the plan with the step key, a successful delete removes the rows of the
  plan, and a failed operation changes nothing. Whether the \<open>n\<close>-th operation of a run
  succeeds is the parameter \<open>ok n\<close>; the operations attempted are recorded in order.
\<close>

datatype db_op = Insert "StepRow list" | Update jsstring jsstring | Delete jsstring

record datastore =
  plan_steps :: "StepRow list"
  ops :: "db_op list"

type_synonym db_outcomes = "nat \<Rightarrow> bool"

text \<open>Each operation returns whether it reported an error, and the datastore after it.\<close>

definition db_insert :: "db_outcomes \<Rightarrow> StepRow list \<Rightarrow> datastore \<Rightarrow> bool \<times> datastore" where
  "db_insert ok new d =
     (if ok (length (ops d))
      then (False, d\<lparr> plan_steps := plan_steps d @ new, ops := ops d @ [Insert new] \<rparr>)
      else (True, d\<lparr> ops := ops d @ [Insert new] \<rparr>))"

definition db_update :: "db_outcomes \<Rightarrow> jsstring \<Rightarrow> StepRow \<Rightarrow> datastore \<Rightarrow> bool \<times> datastore" where
  "db_update ok pid row d =
     (if ok (length (ops d))
      then (False,
            d\<lparr> plan_steps :=
                 map (\<lambda>r. if plan_id r = pid \<and> step_key r = step_key row
                          then r\<lparr> details := details row,
                                 success_criteria := success_criteria row,
                                 priority := priority row,
                                 estimated_minutes := estimated_minutes row \<rparr>
                          else r) (plan_steps d),
               ops := ops d @ [Update pid (step_key row)] \<rparr>)
      else (True, d\<lparr> ops := ops d @ [Update pid (step_key row)] \<rparr>))"

definition db_delete :: "db_outcomes \<Rightarrow> jsstring \<Rightarrow> datastore \<Rightarrow> bool \<times> datastore" where
  "db_delete ok pid d =
     (if ok (length (ops d))
      then (False, d\<lparr> plan_steps := filter (\<lambda>r. plan_id r \<noteq> pid) (plan_steps d),
                       ops := ops d @ [Delete pid] \<rparr>)
      else (True, d\<lparr> ops := ops d @ [Delete pid] \<rparr>))"

text \<open>
  The step loop of \<open>handleGeneratePlan\<close>, from the index \<open>i\<close> on. \<open>gen i s\<close> is the
  outcome of the awaited \<open>callJSON\<close> for the step \<open>s\<close> at index \<open>i\<close> (a payload, or the
  error it throws), which does not touch the datastore. An exception leaves the loop and
  the handler; the datastore stays as it is at that moment.
\<close>

fun generate_steps ::
  "platform \<Rightarrow> (nat \<Rightarrow> OutlineStep \<Rightarrow> error + json) \<Rightarrow> db_outcomes \<Rightarrow> jsstring \<Rightarrow> nat \<Rightarrow>
   OutlineStep list \<Rightarrow> bool \<Rightarrow> StepRow list \<Rightarrow> datastore \<Rightarrow>
   (error + bool \<times> StepRow list) \<times> datastore" where
  "generate_steps P gen ok pid i [] insertedPlaceholders generated d =
     (Inr (insertedPlaceholders, generated), d)"
| "generate_steps P gen ok pid i (s # rest) insertedPlaceholders generated d =
     (case gen i s of
        Inl e \<Rightarrow> (Inl e, d)
      | Inr raw \<Rightarrow>
          (case normalizeStepGen P raw (os_step_key s) (os_title s) of
             Inl e \<Rightarrow> (Inl e, d)
           | Inr stepGen \<Rightarrow>
               (let row = \<lparr> plan_id = pid, step_key = sg_step_key stepGen, order_index = i + 1,
                            title = sg_title stepGen, details = sg_details stepGen,
                            success_criteria = sg_success_criteria stepGen,
                            priority = sg_priority stepGen,
                            estimated_minutes = sg_estimated_minutes stepGen,
                            status = str ''not_started'' \<rparr>;
                    generated' = generated @ [row]
                in if insertedPlaceholders
                   then (case db_update ok pid row d of
                           (upErr, d') \<Rightarrow>
                             generate_steps P gen ok pid (i + 1) rest
                               (if upErr then False else insertedPlaceholders) generated' d')
                   else generate_steps P gen ok pid (i + 1) rest insertedPlaceholders
                          generated' d)))"

text \<open>The placeholder rows, from the index \<open>idx\<close> on.\<close>

fun placeholders_from :: "jsstring \<Rightarrow> nat \<Rightarrow> OutlineStep list \<Rightarrow> StepRow list" where
  "placeholders_from pid idx [] = []"
| "placeholders_from pid idx (s # rest) =
     \<lparr> plan_id = pid, step_key = os_step_key s, order_index = idx + 1, title = os_title s,
       details = [], success_criteria = [], priority = str ''medium'',
       estimated_minutes = 30, status = str ''not_started'' \<rparr>
     # placeholders_from pid (idx + 1) rest"

datatype plan_response = Plan200 int "StepRow list" | Plan500

text \<open>
  \<open>handleGeneratePlan\<close> from the placeholder insert to the response, for the plan
  \<open>pid\<close> and the outline after the degenerate-title pass: the placeholder insert, the
  step loop, and the delete and bulk insert when incremental persistence was given up. The
  \<open>catch\<close> around the delete is for an exception; the datastore reports a failure as a
  value, and the value is not looked at.
\<close>

definition handleGeneratePlan_steps ::
  "platform \<Rightarrow> (nat \<Rightarrow> OutlineStep \<Rightarrow> error + json) \<Rightarrow> db_outcomes \<Rightarrow> jsstring \<Rightarrow>
   OutlineResponse \<Rightarrow> datastore \<Rightarrow> (error + plan_response) \<times> datastore" where
  "handleGeneratePlan_steps P gen ok pid outline d =
     (let placeholders = placeholders_from pid 0 (steps outline)
      in case db_insert ok placeholders d of
           (phErr, d1) \<Rightarrow>
             (case generate_steps P gen ok pid 0 (steps outline)
                     (if phErr then False else True) [] d1 of
                (Inl e, d2) \<Rightarrow> (Inl e, d2)
              | (Inr (insertedPlaceholders, generated), d2) \<Rightarrow>
                  if \<not> insertedPlaceholders
                  then (case db_delete ok pid d2 of
                          (delErr, d3) \<Rightarrow>
                            (case db_insert ok generated d3 of
                               (insErr, d4) \<Rightarrow>
                                 if insErr then (Inr Plan500, d4)
                                 else (Inr (Plan200 (step_count outline) generated), d4)))
                  else (Inr (Plan200 (step_count outline) generated), d2)))"

section \<open>Notions used in the proofs about cleanText\<close>

text \<open>A text in which white space occurs only as single spaces (code unit 32).\<close>

fun collapsed :: "jsstring \<Rightarrow> bool" where
  "collapsed [] = True"
| "collapsed (c # cs) =
     ((is_space c \<longrightarrow> c = 32 \<and> (cs = [] \<or> \<not> is_space (hd cs))) \<and> collapsed cs)"

text \<open>The last two steps of \<open>cleanText\<close> (the cut at \<open>maxLen\<close> and the terminal
  period), and the texts that the steps before them leave unchanged.\<close>

definition clean_tail :: "jsstring \<Rightarrow> nat \<Rightarrow> jsstring" where
  "clean_tail t2 maxLen =
     (let t3 = (if length t2 > maxLen
                then (let cut = lastIndexOf_from t2 32 maxLen
                      in trim (if cut > 20 then slice t2 0 (nat cut) else slice t2 0 maxLen))
                else t2)
      in if t3 \<noteq> [] \<and> \<not> ends_terminal t3 then t3 @ str ''.'' else t3)"

definition tidy :: "jsstring \<Rightarrow> bool" where
  "tidy t \<longleftrightarrow> collapsed t \<and> trim t = t \<and> straighten_double t = t \<and> straighten_single t = t"

section \<open>Example inputs\<close>

text \<open>
  A platform for the examples below, given on the inputs the examples use:
  \<open>JSON.parse\<close> on the listed documents (it throws on every other text the examples
  reach, none of which is valid JSON), \<open>Number\<close> of a string that is not numeric
  (\<open>NaN\<close>), and \<open>toLowerCase\<close> on ASCII text. The examples convert no number to a
  string.
\<close>

definition example_documents :: "(jsstring \<times> json) list" where
  "example_documents =
     [(str ''null'', JNull),
      (str ''0'', JNum (Finite 0)),
      (str ''false'', JBool False),
      (str ''\"\"'', JStr []),
      (str ''[1]'', JArr [JNum (Finite 1)]),
      (str ''[2]'', JArr [JNum (Finite 2)]),
      (str ''{\"a\":1}'', JObj [(str ''a'', JNum (Finite 1))]),
      (str ''{\"done\":true}'', JObj [(str ''done'', JBool True)]),
      (str ''{\"message\":{\"content\":\"late\"}}'',
         JObj [(str ''message'', JObj [(str ''content'', JStr (str ''late''))])]),
      (str ''{\"message\":{\"content\":\"[1]\"}}'',
         JObj [(str ''message'', JObj [(str ''content'', JStr (str ''[1]''))])]),
      (str ''{\"message\":{\"content\":\"[2]\"}}'',
         JObj [(str ''message'', JObj [(str ''content'', JStr (str ''[2]''))])]),
      (str ''{\"message\":{\"content\":\"oops\"}}'',
         JObj [(str ''message'', JObj [(str ''content'', JStr (str ''oops''))])]),
      (str ''{\"message\":{\"content\":\"null\"}}'',
         JObj [(str ''message'', JObj [(str ''content'', JStr (str ''null''))])])]"

definition example_platform :: platform where
  "example_platform =
     \<lparr> JSON_parse = map_of example_documents,
       StringToNumber = (\<lambda>s. NaN),
       NumberToString = (\<lambda>n. []),
       toLowerCase = map ascii_lower \<rparr>"

text \<open>An upstream service that answers the \<open>n\<close>-th call with the \<open>n\<close>-th response of a
  list and fails every later \<open>fetch\<close>.\<close>

definition scripted :: "http list \<Rightarrow> upstream" where
  "scripted rs = (\<lambda>n req. if n < length rs then rs ! n else FetchThrows)"

text \<open>A successful response whose body arrives in one piece.\<close>

definition ok_body :: "jsstring \<Rightarrow> http" where
  "ok_body text = Response 200 (Some [Chunk text])"

definition example_params :: call_params where
  "example_params =
     \<lparr> cp_ollamaUrl = str ''http://ollama/api/chat'', cp_model = str ''fast'',
       cp_prompt = str ''Make a plan'', cp_num_predict = 260, cp_timeoutMs = 35000,
       cp_repairModel = str ''repair'', cp_repairNumPredict = 260,
       cp_repairTimeoutMs = 20000, cp_requiredKeys = None \<rparr>"


definition example_step_raw :: "jsstring \<Rightarrow> jsstring \<Rightarrow> json \<Rightarrow> json" where
  "example_step_raw k t minutes =
     JObj [(str ''step_key'', JStr k), (str ''title'', JStr t),
           (str ''priority'', JStr (str ''High'')),
           (str ''details'', JStr (str ''Read the  support handbook'')),
           (str ''success_criteria'', JStr (str ''Handbook read!'')),
           (str ''estimated_minutes'', minutes)]"

text \<open>A plan of three steps, a generator that fills every step with the same content,
  and datastores whose operations fail at the given positions of the run.\<close>

definition example_plan_outline :: OutlineResponse where
  "example_plan_outline =
     \<lparr> step_count = 3,
       steps = [\<lparr> os_step_key = str ''step_1'', os_title = str ''Meet the support team'' \<rparr>,
                \<lparr> os_step_key = str ''step_2'', os_title = str ''Learn the ticket queue'' \<rparr>,
                \<lparr> os_step_key = str ''step_3'', os_title = str ''Shadow a senior agent'' \<rparr>] \<rparr>"

definition example_gen :: "nat \<Rightarrow> OutlineStep \<Rightarrow> error + json" where
  "example_gen i s = Inr (example_step_raw (os_step_key s) (os_title s) (JNum (Finite 45)))"

definition fails_at :: "nat list \<Rightarrow> db_outcomes" where
  "fails_at ns = (\<lambda>n. n \<notin> set ns)"

definition example_row :: "nat \<Rightarrow> jsstring \<Rightarrow> jsstring \<Rightarrow> StepRow" where
  "example_row n k t =
     \<lparr> plan_id = str ''plan-1'', step_key = k, order_index = n, title = t,
       details = str ''Read the support handbook.'', success_criteria = str ''Handbook read!'',
       priority = str ''high'', estimated_minutes = 45, status = str ''not_started'' \<rparr>"

definition example_placeholder :: "nat \<Rightarrow> jsstring \<Rightarrow> jsstring \<Rightarrow> StepRow" where
  "example_placeholder n k t =
     \<lparr> plan_id = str ''plan-1'', step_key = k, order_index = n, title = t,
       details = [], success_criteria = [],
       priority = str ''medium'', estimated_minutes = 30, status = str ''not_started'' \<rparr>"

definition example_generated :: "StepRow list" where
  "example_generated =
     [example_row 1 (str ''step_1'') (str ''Meet the support team''),
      example_row 2 (str ''step_2'') (str ''Learn the ticket queue''),
      example_row 3 (str ''step_3'') (str ''Shadow a senior agent'')]"

definition example_placeholders :: "StepRow list" where
  "example_placeholders =
     [example_placeholder 1 (str ''step_1'') (str ''Meet the support team''),
      example_placeholder 2 (str ''step_2'') (str ''Learn the ticket queue''),
      example_placeholder 3 (str ''step_3'') (str ''Shadow a senior agent'')]"

section \<open>Evaluation rules for the examples\<close>

lemmas string_eval = str_def trim_def is_space_def matches_ci_def ascii_lower_def
  startsWith_def endsWith_def lastIndexOf_def lastIndexOf_from_def slice_def Let_def

lemmas parse_eval = tryParseJSON_def tryParseJSON_value_def tryParseJSON_log_def try_span_def
  JSON_parse_call_def stripFences_def maybeTruncatedJSON_def
  example_platform_def example_documents_def

lemmas chat_eval = ollamaChat_def ollamaChatStream_def callJSON_def callJSONStream_def
  primary_chat_def repair_chat_def request_of_def res_ok_def res_text_def scripted_def
  example_params_def callJSON_repairPrompt_def callJSONStream_repairPrompt_def
  has_keys_def keys_joined_def process_lines.simps


lemmas clean_eval = cleanText_def straighten_double_def straighten_single_def
  garbage_match_def at_boundary_def is_word_def ends_terminal_def

lemmas stepgen_eval = normalizeStepGen_def normalizePriority_def clampInt_def trunc_def
  example_platform_def

lemmas persist_eval = handleGeneratePlan_steps_def db_insert_def db_update_def db_delete_def
  example_plan_outline_def example_gen_def fails_at_def example_row_def
  example_placeholder_def example_generated_def example_placeholders_def

section \<open>trim\<close>

lemma dropWhile_fix: "xs = [] \<or> \<not> P (hd xs) \<Longrightarrow> dropWhile P xs = xs"
  by (cases xs) auto

lemma last_dropWhile: "dropWhile P xs \<noteq> [] \<Longrightarrow> last (dropWhile P xs) = last xs"
  by (induction xs) (auto split: if_splits)

lemma trim_ends:
  assumes "trim s \<noteq> []"
  shows "\<not> is_space (hd (trim s))" "\<not> is_space (last (trim s))"
proof -
  let ?a = "dropWhile is_space s"
  let ?b = "dropWhile is_space (rev ?a)"
  from assms have b: "?b \<noteq> []" by (simp add: trim_def)
  then have a: "?a \<noteq> []" by (metis dropWhile.simps(1) rev.simps(1))
  have "last ?b = last (rev ?a)" using b by (rule last_dropWhile)
  also have "\<dots> = hd ?a" using a by (simp add: last_rev)
  finally have "hd (trim s) = hd ?a" using b by (simp add: trim_def hd_rev)
  with a show "\<not> is_space (hd (trim s))" by (simp add: hd_dropWhile)
  have "last (trim s) = hd ?b" using b by (simp add: trim_def last_rev)
  with b show "\<not> is_space (last (trim s))" by (simp add: hd_dropWhile)
qed

lemma trim_fix:
  assumes "s = [] \<or> (\<not> is_space (hd s) \<and> \<not> is_space (last s))"
  shows "trim s = s"
proof (cases "s = []")
  case True then show ?thesis by (simp add: trim_def)
next
  case False
  with assms have h: "\<not> is_space (hd s)" and l: "\<not> is_space (last s)" by auto
  have 1: "dropWhile is_space s = s" using h by (intro dropWhile_fix) simp
  have "hd (rev s) = last s" using False by (simp add: hd_rev)
  then have 2: "dropWhile is_space (rev s) = rev s" using l by (intro dropWhile_fix) simp
  show ?thesis by (simp add: trim_def 1 2)
qed

lemma trim_idem: "trim (trim s) = trim s"
  by (rule trim_fix) (use trim_ends in blast)

lemma stripFences_trimmed: "trim (stripFences s) = stripFences s"
  by (simp add: stripFences_def trim_idem)

section \<open>tryParseJSON\<close>

lemma tryParseJSON_log_returns:
  "\<exists>v. fst (tryParseJSON_log P raw) = Inr v \<and> (v = JNull \<or> (\<exists>s. JSON_parse P s = Some v))"
  by (auto simp: tryParseJSON_log_def try_span_def JSON_parse_call_def Let_def
           split: option.splits sum.splits prod.splits)

text \<open>
  Claim C2. Extraction is total: for every input string and whatever \<open>JSON.parse\<close> does,
  \<open>tryParseJSON\<close> returns and does not throw, and what it returns is \<open>null\<close> (none) or
  a value that \<open>JSON.parse\<close> produced. The examples are the empty string, prose, a JSON
  object wrapped in prose, a truncated object and a malformed one.
\<close>

theorem tryParseJSON_total:
  "\<exists>v. tryParseJSON P raw = Inr v \<and> (v = JNull \<or> (\<exists>s. JSON_parse P s = Some v))"
  unfolding tryParseJSON_def by (rule tryParseJSON_log_returns)

theorem tryParseJSON_total_witness:
  "(\<exists>v. tryParseJSON example_platform (str ''Here: {\"a\":1} ok'') = Inr v) \<and>
   tryParseJSON example_platform [] = Inr JNull \<and>
   tryParseJSON example_platform (str ''Sure, here you go'') = Inr JNull \<and>
   tryParseJSON example_platform (str ''Here: {\"a\":1} ok'') = Inr (JObj [(str ''a'', JNum (Finite 1))]) \<and>
   tryParseJSON example_platform (str ''{\"a\":1'') = Inr JNull \<and>
   tryParseJSON example_platform (str ''{\"a\":1}}'') = Inr JNull"
  using tryParseJSON_total [of example_platform "str ''Here: {\"a\":1} ok''"]
  by (simp add: parse_eval string_eval)

text \<open>
  Claim C7, as stated, fails: \<open>maybeTruncatedJSON\<close> accepts either closer, so a text that
  starts with \<open>{\<close> and ends with \<open>]\<close> is not taken as truncated. For the input below
  \<open>JSON.parse\<close> is called twice and the object inside is returned.
\<close>

theorem tryParseJSON_mismatched_closer:
  "startsWith (stripFences (str ''{\"a\":1}]'')) 123 \<and>
   \<not> endsWith (stripFences (str ''{\"a\":1}]'')) 125 \<and>
   tryParseJSON_log example_platform (str ''{\"a\":1}]'') =
     (Inr (JObj [(str ''a'', JNum (Finite 1))]), [str ''{\"a\":1}]'', str ''{\"a\":1}''])"
  by (simp add: parse_eval string_eval)

text \<open>
  Claim C7, amended: when the trimmed, fence-stripped text starts with \<open>{\<close> or \<open>[\<close> and
  ends with neither \<open>}\<close> nor \<open>]\<close>, \<open>tryParseJSON\<close> returns \<open>null\<close> without calling
  \<open>JSON.parse\<close> at all.
\<close>

theorem tryParseJSON_truncated:
  assumes "startsWith (stripFences raw) 123 \<or> startsWith (stripFences raw) 91"
    and "\<not> endsWith (stripFences raw) 125" and "\<not> endsWith (stripFences raw) 93"
  shows "tryParseJSON_log P raw = (Inr JNull, [])"
  using assms
  by (simp add: tryParseJSON_log_def maybeTruncatedJSON_def stripFences_trimmed Let_def)

theorem tryParseJSON_truncated_witness:
  "(startsWith (stripFences (str ''```json
{\"a\":'')) 123 \<or> startsWith (stripFences (str ''```json
{\"a\":'')) 91) \<and>
   \<not> endsWith (stripFences (str ''```json
{\"a\":'')) 125 \<and> \<not> endsWith (stripFences (str ''```json
{\"a\":'')) 93 \<and>
   tryParseJSON_log example_platform (str ''```json
{\"a\":'') = (Inr JNull, [])"
proof -
  have s: "stripFences (str ''```json
{\"a\":'') = str ''{\"a\":''"
    by (simp add: stripFences_def string_eval)
  have h1: "startsWith (stripFences (str ''```json
{\"a\":'')) 123 \<or> startsWith (stripFences (str ''```json
{\"a\":'')) 91"
    unfolding s by (simp add: string_eval)
  have h2: "\<not> endsWith (stripFences (str ''```json
{\"a\":'')) 125" unfolding s by (simp add: string_eval)
  have h3: "\<not> endsWith (stripFences (str ''```json
{\"a\":'')) 93" unfolding s by (simp add: string_eval)
  from tryParseJSON_truncated [OF h1 h2 h3, of example_platform] h1 h2 h3
  show ?thesis by simp
qed

section \<open>Upstream calls\<close>

lemma ollamaChat_calls: "snd (ollamaChat P up p calls) = calls @ [request_of p False]"
  by (simp add: ollamaChat_def Let_def split: http.splits sum.splits option.splits)

lemma ollamaChat_calls': "ollamaChat P up p calls = (r, calls') \<Longrightarrow> calls' = calls @ [request_of p False]"
  using ollamaChat_calls [of P up p calls] by simp

lemma ollamaChatStream_calls:
  "fst (snd (ollamaChatStream P up p calls toks)) = calls @ [request_of p True]"
  by (simp add: ollamaChatStream_def Let_def split: http.splits sum.splits option.splits prod.splits)

lemma ollamaChatStream_calls':
  "ollamaChatStream P up p calls toks = (r, calls', toks') \<Longrightarrow> calls' = calls @ [request_of p True]"
  using ollamaChatStream_calls [of P up p calls toks] by simp



lemma callJSON_repair_issued:
  assumes "ollamaChat P up (primary_chat p) calls = (Inr a1, calls1)"
    and "tryParseJSON_value P a1 = Inr p1" and "\<not> truthy p1"
  shows "snd (callJSON P up p calls) =
           calls @ [request_of (primary_chat p) False,
              request_of (repair_chat p (callJSON_repairPrompt P (cp_requiredKeys p) a1)) False]"
proof -
  let ?rp = "repair_chat p (callJSON_repairPrompt P (cp_requiredKeys p) a1)"
  obtain r2 c2 where o2: "ollamaChat P up ?rp calls1 = (r2, c2)"
    by (cases "ollamaChat P up ?rp calls1")
  show ?thesis
    using assms o2 ollamaChat_calls' [OF assms(1)] ollamaChat_calls' [OF o2]
    by (auto simp: callJSON_def split: sum.splits)
qed


lemma callJSON_truthy: "callJSON P up p calls = (Inr v, calls') \<Longrightarrow> truthy v"
  by (auto simp: callJSON_def split: prod.splits sum.splits if_splits)



lemma callJSONStream_repair_issued:
  assumes "ollamaChatStream P up (primary_chat p) calls toks = (Inr raw1, calls1, toks1)"
    and "tryParseJSON P raw1 = Inr p1" and "\<not> truthy p1"
  shows "fst (snd (callJSONStream P up p calls toks)) =
           calls @ [request_of (primary_chat p) True,
              request_of (repair_chat p (callJSONStream_repairPrompt (cp_requiredKeys p) raw1)) False]"
proof -
  let ?rp = "repair_chat p (callJSONStream_repairPrompt (cp_requiredKeys p) raw1)"
  obtain r2 c2 where o2: "ollamaChat P up ?rp calls1 = (r2, c2)"
    by (cases "ollamaChat P up ?rp calls1")
  show ?thesis
    using assms o2 ollamaChatStream_calls' [OF assms(1)] ollamaChat_calls' [OF o2]
    by (auto simp: callJSONStream_def split: sum.splits)
qed


lemma callJSONStream_truthy:
  "callJSONStream P up p calls toks = (Inr res, calls', toks') \<Longrightarrow> truthy (sr_parsed res)"
  by (auto simp: callJSONStream_def split: prod.splits sum.splits if_splits)



text \<open>
  Claim C6 does not hold of the code. The \<open>break\<close> on a \<open>done\<close> record (commented
  "done == true ends stream") leaves the inner loop over the buffered lines only; the
  outer loop goes on reading. When the service sends another chunk after the \<open>done\<close>
  record, the deltas in it are passed to \<open>onToken\<close> and added to the returned text.
\<close>

theorem ollamaChatStream_reads_past_done:
  "ollamaChatStream example_platform
     (scripted [Response 200 (Some [Chunk (str ''{\"done\":true}'' @ [10]),
                                    Chunk (str ''{\"message\":{\"content\":\"late\"}}'' @ [10])])])
     (primary_chat example_params) [] [] =
   (Inr (str ''late''), [request_of (primary_chat example_params) True], [JStr (str ''late'')])"
  by (simp add: chat_eval parse_eval string_eval)

section \<open>Falsy payloads\<close>

lemma falsy_documents:
  assumes "JSON_parse P (str ''null'') = Some JNull"
    and "JSON_parse P (str ''0'') = Some (JNum (Finite 0))"
    and "JSON_parse P (str ''false'') = Some (JBool False)"
    and "JSON_parse P (str ''\"\"'') = Some (JStr [])"
    and "a1 \<in> {str ''null'', str ''0'', str ''false'', str ''\"\"''}"
  shows "\<exists>v. tryParseJSON P a1 = Inr v \<and> \<not> truthy v"
proof -
  have s: "stripFences (str ''null'') = str ''null''" "stripFences (str ''0'') = str ''0''"
    "stripFences (str ''false'') = str ''false''" "stripFences (str ''\"\"'') = str ''\"\"''"
    by (simp_all add: stripFences_def string_eval)
  have t: "\<not> maybeTruncatedJSON (str ''null'')" "\<not> maybeTruncatedJSON (str ''0'')"
    "\<not> maybeTruncatedJSON (str ''false'')" "\<not> maybeTruncatedJSON (str ''\"\"'')"
    by (simp_all add: maybeTruncatedJSON_def string_eval)
  have n: "str ''null'' \<noteq> []" "str ''0'' \<noteq> []" "str ''false'' \<noteq> []" "str ''\"\"'' \<noteq> []"
    by (simp_all add: str_def)
  from assms(5) consider "a1 = str ''null''" | "a1 = str ''0''" | "a1 = str ''false''"
    | "a1 = str ''\"\"''" by auto
  then show ?thesis
  proof cases
    case 1 then show ?thesis using assms(1) s t n
      by (simp add: tryParseJSON_def tryParseJSON_log_def JSON_parse_call_def)
  next
    case 2 then show ?thesis using assms(2) s t n
      by (simp add: tryParseJSON_def tryParseJSON_log_def JSON_parse_call_def)
  next
    case 3 then show ?thesis using assms(3) s t n
      by (simp add: tryParseJSON_def tryParseJSON_log_def JSON_parse_call_def)
  next
    case 4 then show ?thesis using assms(4) s t n
      by (simp add: tryParseJSON_def tryParseJSON_log_def JSON_parse_call_def)
  qed
qed

text \<open>
  Claim C10. Whatever \<open>callJSON\<close> and \<open>callJSONStream\<close> return is truthy; every other
  path throws. When \<open>JSON.parse\<close> reads the documents \<open>null\<close>, \<open>0\<close>, \<open>false\<close> and
  \<open>""\<close> as JSON prescribes, a primary response with one of these texts is parsed to a
  falsy value, which is treated as an extraction failure: the repair request is sent.
\<close>

theorem callJSON_never_falsy:
  "(\<forall>v calls'. callJSON P up p calls = (Inr v, calls') \<longrightarrow> truthy v) \<and>
   (\<forall>res calls' toks'. callJSONStream P up p calls toks = (Inr res, calls', toks') \<longrightarrow>
      truthy (sr_parsed res)) \<and>
   (JSON_parse P (str ''null'') = Some JNull \<and>
    JSON_parse P (str ''0'') = Some (JNum (Finite 0)) \<and>
    JSON_parse P (str ''false'') = Some (JBool False) \<and>
    JSON_parse P (str ''\"\"'') = Some (JStr []) \<longrightarrow>
    (\<forall>a1 \<in> {str ''null'', str ''0'', str ''false'', str ''\"\"''}.
       (\<exists>v. tryParseJSON P a1 = Inr v \<and> \<not> truthy v) \<and>
       (\<forall>calls1. ollamaChat P up (primary_chat p) calls = (Inr (JStr a1), calls1) \<longrightarrow>
          snd (callJSON P up p calls) =
            calls @ [request_of (primary_chat p) False,
              request_of (repair_chat p
                (callJSON_repairPrompt P (cp_requiredKeys p) (JStr a1))) False]) \<and>
       (\<forall>calls1 toks1.
          ollamaChatStream P up (primary_chat p) calls toks = (Inr a1, calls1, toks1) \<longrightarrow>
          fst (snd (callJSONStream P up p calls toks)) =
            calls @ [request_of (primary_chat p) True,
              request_of (repair_chat p
                (callJSONStream_repairPrompt (cp_requiredKeys p) a1)) False])))"
proof (intro conjI allI impI ballI)
  fix v calls' assume "callJSON P up p calls = (Inr v, calls')"
  then show "truthy v" by (rule callJSON_truthy)
next
  fix res calls' toks' assume "callJSONStream P up p calls toks = (Inr res, calls', toks')"
  then show "truthy (sr_parsed res)" by (rule callJSONStream_truthy)
next
  fix a1
  assume h: "JSON_parse P (str ''null'') = Some JNull \<and>
    JSON_parse P (str ''0'') = Some (JNum (Finite 0)) \<and>
    JSON_parse P (str ''false'') = Some (JBool False) \<and>
    JSON_parse P (str ''\"\"'') = Some (JStr [])"
    and a: "a1 \<in> {str ''null'', str ''0'', str ''false'', str ''\"\"''}"
  from h a show "\<exists>v. tryParseJSON P a1 = Inr v \<and> \<not> truthy v"
    by (intro falsy_documents) simp_all
next
  fix a1 calls1
  assume h: "JSON_parse P (str ''null'') = Some JNull \<and>
    JSON_parse P (str ''0'') = Some (JNum (Finite 0)) \<and>
    JSON_parse P (str ''false'') = Some (JBool False) \<and>
    JSON_parse P (str ''\"\"'') = Some (JStr [])"
    and a: "a1 \<in> {str ''null'', str ''0'', str ''false'', str ''\"\"''}"
    and o: "ollamaChat P up (primary_chat p) calls = (Inr (JStr a1), calls1)"
  from h a obtain v where "tryParseJSON P a1 = Inr v" "\<not> truthy v"
    using falsy_documents [of P a1] by auto
  then have "tryParseJSON_value P (JStr a1) = Inr v" by (simp add: tryParseJSON_value_def)
  from callJSON_repair_issued [OF o this \<open>\<not> truthy v\<close>]
  show "snd (callJSON P up p calls) =
            calls @ [request_of (primary_chat p) False,
              request_of (repair_chat p
                (callJSON_repairPrompt P (cp_requiredKeys p) (JStr a1))) False]" .
next
  fix a1 calls1 toks1
  assume h: "JSON_parse P (str ''null'') = Some JNull \<and>
    JSON_parse P (str ''0'') = Some (JNum (Finite 0)) \<and>
    JSON_parse P (str ''false'') = Some (JBool False) \<and>
    JSON_parse P (str ''\"\"'') = Some (JStr [])"
    and a: "a1 \<in> {str ''null'', str ''0'', str ''false'', str ''\"\"''}"
    and o: "ollamaChatStream P up (primary_chat p) calls toks = (Inr a1, calls1, toks1)"
  from h a obtain v where v: "tryParseJSON P a1 = Inr v" "\<not> truthy v"
    using falsy_documents [of P a1] by auto
  from callJSONStream_repair_issued [OF o v]
  show "fst (snd (callJSONStream P up p calls toks)) =
            calls @ [request_of (primary_chat p) True,
              request_of (repair_chat p
                (callJSONStream_repairPrompt (cp_requiredKeys p) a1)) False]" .
qed

theorem callJSON_never_falsy_witness:
  "JSON_parse example_platform (str ''null'') = Some JNull \<and>
   JSON_parse example_platform (str ''0'') = Some (JNum (Finite 0)) \<and>
   JSON_parse example_platform (str ''false'') = Some (JBool False) \<and>
   JSON_parse example_platform (str ''\"\"'') = Some (JStr []) \<and>
   ollamaChat example_platform
     (scripted [ok_body (str ''{\"message\":{\"content\":\"null\"}}''),
                ok_body (str ''{\"message\":{\"content\":\"[2]\"}}'')])
     (primary_chat example_params) [] =
     (Inr (JStr (str ''null'')), [request_of (primary_chat example_params) False]) \<and>
   snd (callJSON example_platform
     (scripted [ok_body (str ''{\"message\":{\"content\":\"null\"}}''),
                ok_body (str ''{\"message\":{\"content\":\"[2]\"}}'')])
     example_params []) =
     [request_of (primary_chat example_params) False,
      request_of (repair_chat example_params
        (callJSON_repairPrompt example_platform None (JStr (str ''null'')))) False] \<and>
   truthy (JArr [JNum (Finite 2)]) \<and>
   callJSON example_platform
     (scripted [ok_body (str ''{\"message\":{\"content\":\"null\"}}''),
                ok_body (str ''{\"message\":{\"content\":\"[2]\"}}'')])
     example_params [] =
     (Inr (JArr [JNum (Finite 2)]),
      [request_of (primary_chat example_params) False,
       request_of (repair_chat example_params
         (callJSON_repairPrompt example_platform None (JStr (str ''null'')))) False])"
proof -
  let ?up = "scripted [ok_body (str ''{\"message\":{\"content\":\"null\"}}''),
                       ok_body (str ''{\"message\":{\"content\":\"[2]\"}}'')]"
  have h: "JSON_parse example_platform (str ''null'') = Some JNull \<and>
    JSON_parse example_platform (str ''0'') = Some (JNum (Finite 0)) \<and>
    JSON_parse example_platform (str ''false'') = Some (JBool False) \<and>
    JSON_parse example_platform (str ''\"\"'') = Some (JStr [])"
    by (simp add: example_platform_def example_documents_def str_def)
  have o: "ollamaChat example_platform ?up (primary_chat example_params) [] =
     (Inr (JStr (str ''null'')), [request_of (primary_chat example_params) False])"
    by (simp add: chat_eval parse_eval string_eval ok_body_def)
  have e: "callJSON example_platform ?up example_params [] =
     (Inr (JArr [JNum (Finite 2)]),
      [request_of (primary_chat example_params) False,
       request_of (repair_chat example_params
         (callJSON_repairPrompt example_platform None (JStr (str ''null'')))) False])"
    by (simp add: chat_eval parse_eval string_eval ok_body_def)
  have k: "cp_requiredKeys example_params = None" by (simp add: example_params_def)
  note T = callJSON_never_falsy [of example_platform ?up example_params "[]" "[]"]
  from T e have t: "truthy (JArr [JNum (Finite 2)])" by blast
  from T h o have "snd (callJSON example_platform ?up example_params []) =
     [request_of (primary_chat example_params) False,
      request_of (repair_chat example_params
        (callJSON_repairPrompt example_platform None (JStr (str ''null'')))) False]"
    unfolding k by (auto simp del: snd_conv)
  with h o e t show ?thesis by simp
qed

section \<open>Decimal numerals\<close>






section \<open>clampInt\<close>

lemma clampInt_bounds:
  "min_v \<le> max_v \<Longrightarrow> min_v \<le> clampInt n min_v max_v \<and> clampInt n min_v max_v \<le> max_v"
  by (cases n) (auto simp: clampInt_def)

lemma clampInt_not_finite: "(\<forall>q. n \<noteq> Finite q) \<Longrightarrow> clampInt n min_v max_v = min_v"
  by (cases n) (auto simp: clampInt_def)

section \<open>normalizeOutline\<close>












lemma upto_nth: "j < nat n \<Longrightarrow> [1..n] ! j = int j + 1"
  by (simp add: nth_upto)








section \<open>normalizeStepGen\<close>

lemma normalizeStepGen_keys:
  "normalizeStepGen P raw k t = Inr r \<Longrightarrow> sg_step_key r = k \<and> sg_title r = t"
  by (auto simp: normalizeStepGen_def Let_def split: if_splits)

text \<open>
  Claim C4. Whenever \<open>normalizeStepGen\<close> returns, the returned \<open>step_key\<close> and
  \<open>title\<close> are the expected ones passed in; two runs on different generator payloads
  agree on both. In the example the payloads echo other keys and titles.
\<close>

theorem normalizeStepGen_identity:
  "(\<forall>r. normalizeStepGen P raw k t = Inr r \<longrightarrow> sg_step_key r = k \<and> sg_title r = t) \<and>
   (\<forall>raw' r r'. normalizeStepGen P raw k t = Inr r \<and> normalizeStepGen P raw' k t = Inr r' \<longrightarrow>
      sg_step_key r = sg_step_key r' \<and> sg_title r = sg_title r')"
  using normalizeStepGen_keys by metis

theorem normalizeStepGen_identity_witness:
  "normalizeStepGen example_platform
     (example_step_raw (str ''step_9'') (str ''Other'') (JNum (Finite 45)))
     (str ''step_1'') (str ''Meet the support team'') =
   Inr \<lparr> sg_step_key = str ''step_1'', sg_title = str ''Meet the support team'',
         sg_priority = str ''high'', sg_details = str ''Read the support handbook.'',
         sg_success_criteria = str ''Handbook read!'', sg_estimated_minutes = 45 \<rparr> \<and>
   normalizeStepGen example_platform
     (example_step_raw (str ''step_2'') (str ''Hijacked'') JNull)
     (str ''step_1'') (str ''Meet the support team'') =
   Inr \<lparr> sg_step_key = str ''step_1'', sg_title = str ''Meet the support team'',
         sg_priority = str ''high'', sg_details = str ''Read the support handbook.'',
         sg_success_criteria = str ''Handbook read!'', sg_estimated_minutes = 30 \<rparr> \<and>
   sg_step_key \<lparr> sg_step_key = str ''step_1'', sg_title = str ''Meet the support team'',
         sg_priority = str ''high'', sg_details = str ''Read the support handbook.'',
         sg_success_criteria = str ''Handbook read!'', sg_estimated_minutes = 45 \<rparr> =
   sg_step_key \<lparr> sg_step_key = str ''step_1'', sg_title = str ''Meet the support team'',
         sg_priority = str ''high'', sg_details = str ''Read the support handbook.'',
         sg_success_criteria = str ''Handbook read!'', sg_estimated_minutes = 30 \<rparr>"
proof -
  have a: "normalizeStepGen example_platform
     (example_step_raw (str ''step_9'') (str ''Other'') (JNum (Finite 45)))
     (str ''step_1'') (str ''Meet the support team'') =
   Inr \<lparr> sg_step_key = str ''step_1'', sg_title = str ''Meet the support team'',
         sg_priority = str ''high'', sg_details = str ''Read the support handbook.'',
         sg_success_criteria = str ''Handbook read!'', sg_estimated_minutes = 45 \<rparr>"
    by (simp add: stepgen_eval clean_eval string_eval example_step_raw_def)
  have b: "normalizeStepGen example_platform
     (example_step_raw (str ''step_2'') (str ''Hijacked'') JNull)
     (str ''step_1'') (str ''Meet the support team'') =
   Inr \<lparr> sg_step_key = str ''step_1'', sg_title = str ''Meet the support team'',
         sg_priority = str ''high'', sg_details = str ''Read the support handbook.'',
         sg_success_criteria = str ''Handbook read!'', sg_estimated_minutes = 30 \<rparr>"
    by (simp add: stepgen_eval clean_eval string_eval example_step_raw_def)
  from normalizeStepGen_identity [of example_platform
      "example_step_raw (str ''step_9'') (str ''Other'') (JNum (Finite 45))"
      "str ''step_1''" "str ''Meet the support team''"] a b
  show ?thesis by blast
qed

text \<open>
  Claim C8, as stated, fails where it says that a non-finite value defaults to 30:
  \<open>clampInt\<close> returns its lower bound for a number that is not finite, so
  \<open>estimated_minutes\<close> is 10 for \<open>1e999\<close> (which \<open>JSON.parse\<close> reads as
  \<open>Infinity\<close>) and for a string that is not a number.
\<close>

theorem normalizeStepGen_non_finite_minutes:
  "normalizeStepGen example_platform
     (example_step_raw (str ''step_1'') (str ''Meet the support team'') (JNum PosInfinity))
     (str ''step_1'') (str ''Meet the support team'') =
   Inr \<lparr> sg_step_key = str ''step_1'', sg_title = str ''Meet the support team'',
         sg_priority = str ''high'', sg_details = str ''Read the support handbook.'',
         sg_success_criteria = str ''Handbook read!'', sg_estimated_minutes = 10 \<rparr> \<and>
   normalizeStepGen example_platform
     (example_step_raw (str ''step_1'') (str ''Meet the support team'') (JStr (str ''soon'')))
     (str ''step_1'') (str ''Meet the support team'') =
   Inr \<lparr> sg_step_key = str ''step_1'', sg_title = str ''Meet the support team'',
         sg_priority = str ''high'', sg_details = str ''Read the support handbook.'',
         sg_success_criteria = str ''Handbook read!'', sg_estimated_minutes = 10 \<rparr>"
  by (simp add: stepgen_eval clean_eval string_eval example_step_raw_def)

lemma normalizePriority_cases:
  "normalizePriority P v \<in> {str ''low'', str ''medium'', str ''high''}"
  by (auto simp: normalizePriority_def Let_def)

text \<open>
  Claim C8, amended: \<open>estimated_minutes\<close> is an integer between 10 and 90; it is 30
  when the field is absent or \<open>null\<close>, and 10 when the supplied value converts to a number
  that is not finite. \<open>priority\<close> is one of \<open>low\<close>, \<open>medium\<close>, \<open>high\<close>: the
  lower-cased, trimmed string of the supplied value when that is one of the three, and
  \<open>medium\<close> otherwise.
\<close>

theorem normalizeStepGen_content:
  assumes "normalizeStepGen P raw k t = Inr r"
  shows
   "10 \<le> sg_estimated_minutes r \<and> sg_estimated_minutes r \<le> 90 \<and>
    (get_prop (Some raw) (str ''estimated_minutes'') = None \<or>
     get_prop (Some raw) (str ''estimated_minutes'') = Some JNull \<longrightarrow>
       sg_estimated_minutes r = 30) \<and>
    (\<forall>v. get_prop (Some raw) (str ''estimated_minutes'') = Some v \<and> v \<noteq> JNull \<and>
         (\<forall>q. js_Number P v \<noteq> Finite q) \<longrightarrow> sg_estimated_minutes r = 10) \<and>
    sg_priority r \<in> {str ''low'', str ''medium'', str ''high''} \<and>
    sg_priority r =
      (if trim (toLowerCase P (js_String P
             (nullish (get_prop (Some raw) (str ''priority'')) (JStr []))))
          \<in> {str ''low'', str ''medium'', str ''high''}
       then trim (toLowerCase P (js_String P
             (nullish (get_prop (Some raw) (str ''priority'')) (JStr []))))
       else str ''medium'')"
proof -
  let ?em = "get_prop (Some raw) (str ''estimated_minutes'')"
  from assms have em: "sg_estimated_minutes r =
      clampInt (js_Number P (nullish ?em (JNum (Finite 30)))) 10 90"
    and pr: "sg_priority r = normalizePriority P (get_prop (Some raw) (str ''priority''))"
    by (auto simp: normalizeStepGen_def Let_def split: if_splits)
  have b: "10 \<le> sg_estimated_minutes r \<and> sg_estimated_minutes r \<le> 90"
    unfolding em using clampInt_bounds [of 10 90] by simp
  have d: "?em = None \<or> ?em = Some JNull \<longrightarrow> sg_estimated_minutes r = 30"
    unfolding em by (auto simp: clampInt_def trunc_def)
  have nf: "\<forall>v. ?em = Some v \<and> v \<noteq> JNull \<and> (\<forall>q. js_Number P v \<noteq> Finite q) \<longrightarrow>
      sg_estimated_minutes r = 10"
  proof (intro allI impI)
    fix v assume h: "?em = Some v \<and> v \<noteq> JNull \<and> (\<forall>q. js_Number P v \<noteq> Finite q)"
    then have "nullish ?em (JNum (Finite 30)) = v" by (cases v) simp_all
    with h show "sg_estimated_minutes r = 10"
      unfolding em by (simp add: clampInt_not_finite)
  qed
  have p1: "sg_priority r \<in> {str ''low'', str ''medium'', str ''high''}"
    unfolding pr by (rule normalizePriority_cases)
  have p2: "sg_priority r =
      (if trim (toLowerCase P (js_String P
             (nullish (get_prop (Some raw) (str ''priority'')) (JStr []))))
          \<in> {str ''low'', str ''medium'', str ''high''}
       then trim (toLowerCase P (js_String P
             (nullish (get_prop (Some raw) (str ''priority'')) (JStr []))))
       else str ''medium'')"
    unfolding pr by (simp add: normalizePriority_def Let_def)
  from b d nf p1 p2 show ?thesis by blast
qed

theorem normalizeStepGen_content_witness:
  "normalizeStepGen example_platform
     (example_step_raw (str ''step_1'') (str ''Meet the support team'') (JNum PosInfinity))
     (str ''step_1'') (str ''Meet the support team'') =
   Inr \<lparr> sg_step_key = str ''step_1'', sg_title = str ''Meet the support team'',
         sg_priority = str ''high'', sg_details = str ''Read the support handbook.'',
         sg_success_criteria = str ''Handbook read!'', sg_estimated_minutes = 10 \<rparr> \<and>
   normalizeStepGen example_platform
     (example_step_raw (str ''step_1'') (str ''Meet the support team'') JNull)
     (str ''step_1'') (str ''Meet the support team'') =
   Inr \<lparr> sg_step_key = str ''step_1'', sg_title = str ''Meet the support team'',
         sg_priority = str ''high'', sg_details = str ''Read the support handbook.'',
         sg_success_criteria = str ''Handbook read!'', sg_estimated_minutes = 30 \<rparr> \<and>
   get_prop (Some (example_step_raw (str ''step_1'') (str ''Meet the support team'') JNull))
     (str ''estimated_minutes'') = Some JNull \<and>
   (10::int) \<le> 30 \<and> (30::int) \<le> 90 \<and>
   str ''high'' \<in> {str ''low'', str ''medium'', str ''high''}"
proof -
  have a: "normalizeStepGen example_platform
     (example_step_raw (str ''step_1'') (str ''Meet the support team'') (JNum PosInfinity))
     (str ''step_1'') (str ''Meet the support team'') =
   Inr \<lparr> sg_step_key = str ''step_1'', sg_title = str ''Meet the support team'',
         sg_priority = str ''high'', sg_details = str ''Read the support handbook.'',
         sg_success_criteria = str ''Handbook read!'', sg_estimated_minutes = 10 \<rparr>"
    by (simp add: stepgen_eval clean_eval string_eval example_step_raw_def)
  have b: "normalizeStepGen example_platform
     (example_step_raw (str ''step_1'') (str ''Meet the support team'') JNull)
     (str ''step_1'') (str ''Meet the support team'') =
   Inr \<lparr> sg_step_key = str ''step_1'', sg_title = str ''Meet the support team'',
         sg_priority = str ''high'', sg_details = str ''Read the support handbook.'',
         sg_success_criteria = str ''Handbook read!'', sg_estimated_minutes = 30 \<rparr>"
    by (simp add: stepgen_eval clean_eval string_eval example_step_raw_def)
  have g: "get_prop (Some (example_step_raw (str ''step_1'') (str ''Meet the support team'') JNull))
     (str ''estimated_minutes'') = Some JNull"
    by (simp add: example_step_raw_def str_def)
  from normalizeStepGen_content [OF b]
  have "(10::int) \<le> 30 \<and> (30::int) \<le> 90 \<and>
        str ''high'' \<in> {str ''low'', str ''medium'', str ''high''}" by simp
  with a b g show ?thesis by blast
qed

section \<open>Persisting the steps\<close>

lemma db_update_ops:
  "db_update ok pid row d = (err, d') \<Longrightarrow>
   ops d' = ops d @ [Update pid (step_key row)] \<and> err = (\<not> ok (length (ops d)))"
  by (auto simp: db_update_def split: if_splits)

lemma generate_steps_rows:
  assumes "generate_steps P gen ok pid i xs ip g d = (Inr (ip', g'), d')"
    and "\<forall>r \<in> set g. plan_id r = pid"
  shows "map step_key g' = map step_key g @ map os_step_key xs \<and> (\<forall>r \<in> set g'. plan_id r = pid)"
  using assms
proof (induction xs arbitrary: i ip g d)
  case Nil
  then show ?case by simp
next
  case (Cons s rest)
  from Cons.prems(1) obtain raw where raw: "gen i s = Inr raw"
    by (cases "gen i s") simp_all
  from Cons.prems(1) raw obtain sg where
    sg: "normalizeStepGen P raw (os_step_key s) (os_title s) = Inr sg"
    by (cases "normalizeStepGen P raw (os_step_key s) (os_title s)") simp_all
  define row where "row = \<lparr> plan_id = pid, step_key = sg_step_key sg, order_index = i + 1,
     title = sg_title sg, details = sg_details sg, success_criteria = sg_success_criteria sg,
     priority = sg_priority sg, estimated_minutes = sg_estimated_minutes sg,
     status = str ''not_started'' \<rparr>"
  have key: "step_key row = os_step_key s" and pl: "plan_id row = pid"
    using normalizeStepGen_keys [OF sg] by (simp_all add: row_def)
  have g: "\<forall>r \<in> set (g @ [row]). plan_id r = pid" using Cons.prems(2) pl by simp
  have "\<exists>ip1 d1. generate_steps P gen ok pid (i + 1) rest ip1 (g @ [row]) d1 = (Inr (ip', g'), d')"
  proof (cases ip)
    case True
    obtain err d1 where up: "db_update ok pid row d = (err, d1)" by (cases "db_update ok pid row d")
    have "generate_steps P gen ok pid (i + 1) rest (if err then False else ip) (g @ [row]) d1
            = (Inr (ip', g'), d')"
      using Cons.prems(1) raw sg True up [unfolded row_def] unfolding row_def
      by (auto simp: Let_def)
    then show ?thesis by blast
  next
    case False
    have "generate_steps P gen ok pid (i + 1) rest ip (g @ [row]) d = (Inr (ip', g'), d')"
      using Cons.prems(1) raw sg False unfolding row_def by (simp add: Let_def)
    then show ?thesis by blast
  qed
  then obtain ip1 d1 where
    rec: "generate_steps P gen ok pid (i + 1) rest ip1 (g @ [row]) d1 = (Inr (ip', g'), d')"
    by blast
  from Cons.IH [OF rec g] key show ?case by simp
qed

lemma generate_steps_skipped:
  "generate_steps P gen ok pid i xs False g d = (res, d') \<Longrightarrow>
   d' = d \<and> (\<forall>ip' g'. res = Inr (ip', g') \<longrightarrow> \<not> ip')"
proof (induction xs arbitrary: i g)
  case Nil
  then show ?case by auto
next
  case (Cons s rest)
  show ?case
  proof (cases "gen i s")
    case (Inl e)
    with Cons.prems show ?thesis by auto
  next
    case (Inr raw)
    show ?thesis
    proof (cases "normalizeStepGen P raw (os_step_key s) (os_title s)")
      case (Inl e)
      with Cons.prems Inr show ?thesis by auto
    next
      case sg: (Inr sg)
      from Cons.prems Inr sg obtain g1 where
        "generate_steps P gen ok pid (i + 1) rest False g1 d = (res, d')"
        by (auto simp: Let_def)
      from Cons.IH [OF this] show ?thesis .
    qed
  qed
qed

lemma generate_steps_first_failure:
  assumes "generate_steps P gen ok pid i xs True g d = (Inr (ip', g'), d')"
    and "k < length xs"
    and "\<not> ok (length (ops d) + k)"
    and "\<forall>j < k. ok (length (ops d) + j)"
  shows "\<not> ip' \<and> ops d' = ops d @ map (\<lambda>s. Update pid (os_step_key s)) (take (Suc k) xs)"
  using assms
proof (induction xs arbitrary: i g d k)
  case Nil
  then show ?case by simp
next
  case (Cons s rest)
  from Cons.prems(1) obtain raw where raw: "gen i s = Inr raw"
    by (cases "gen i s") simp_all
  from Cons.prems(1) raw obtain sg where
    sg: "normalizeStepGen P raw (os_step_key s) (os_title s) = Inr sg"
    by (cases "normalizeStepGen P raw (os_step_key s) (os_title s)") simp_all
  define row where "row = \<lparr> plan_id = pid, step_key = sg_step_key sg, order_index = i + 1,
     title = sg_title sg, details = sg_details sg, success_criteria = sg_success_criteria sg,
     priority = sg_priority sg, estimated_minutes = sg_estimated_minutes sg,
     status = str ''not_started'' \<rparr>"
  have key: "step_key row = os_step_key s"
    using normalizeStepGen_keys [OF sg] by (simp add: row_def)
  obtain err d1 where up: "db_update ok pid row d = (err, d1)" by (cases "db_update ok pid row d")
  from db_update_ops [OF up] key
  have ops1: "ops d1 = ops d @ [Update pid (os_step_key s)]" and err: "err = (\<not> ok (length (ops d)))"
    by simp_all
  have rec: "generate_steps P gen ok pid (i + 1) rest (if err then False else True) (g @ [row]) d1
               = (Inr (ip', g'), d')"
    using Cons.prems(1) raw sg up [unfolded row_def] unfolding row_def by (auto simp: Let_def)
  show ?case
  proof (cases k)
    case 0
    with Cons.prems(3) err have "err" by simp
    with rec have "generate_steps P gen ok pid (i + 1) rest False (g @ [row]) d1 = (Inr (ip', g'), d')"
      by simp
    from generate_steps_skipped [OF this] have "d' = d1" "\<not> ip'" by auto
    with ops1 0 show ?thesis by simp
  next
    case (Suc k')
    with Cons.prems(4) have "ok (length (ops d) + 0)" by blast
    with err have "\<not> err" by simp
    with rec have r: "generate_steps P gen ok pid (i + 1) rest True (g @ [row]) d1 = (Inr (ip', g'), d')"
      by simp
    have k': "k' < length rest" using Cons.prems(2) Suc by simp
    have f: "\<not> ok (length (ops d1) + k')" using Cons.prems(3) Suc ops1 by simp
    have a: "\<forall>j < k'. ok (length (ops d1) + j)"
    proof (intro allI impI)
      fix j assume "j < k'"
      then have "Suc j < k" using Suc by simp
      with Cons.prems(4) have "ok (length (ops d) + Suc j)" by blast
      then show "ok (length (ops d1) + j)" using ops1 by simp
    qed
    from Cons.IH [OF r k' f a] ops1 Suc show ?thesis by simp
  qed
qed

lemma db_insert_result:
  "db_insert ok new d = (err, d') \<Longrightarrow>
   ops d' = ops d @ [Insert new] \<and> err = (\<not> ok (length (ops d))) \<and>
   plan_steps d' = (if ok (length (ops d)) then plan_steps d @ new else plan_steps d)"
  by (auto simp: db_insert_def split: if_splits)

lemma db_delete_result:
  "db_delete ok pid d = (err, d') \<Longrightarrow>
   ops d' = ops d @ [Delete pid] \<and> err = (\<not> ok (length (ops d))) \<and>
   plan_steps d' = (if ok (length (ops d)) then filter (\<lambda>r. plan_id r \<noteq> pid) (plan_steps d)
                    else plan_steps d)"
  by (auto simp: db_delete_def split: if_splits)

text \<open>
  Claim C5, amended. In a run that completes, in which the placeholder insert succeeds and
  the update of the step at position \<open>k\<close> is the first one to fail, the handler attempts
  no update after that one, then one delete of the plan's rows and one bulk insert of the
  generated rows, whose keys are the outline's keys in order. When the delete and the bulk
  insert both succeed, the response carries the generated rows and the rows persisted for
  the plan are exactly the generated rows.
\<close>

theorem bulk_insert_fallback:
  assumes run: "handleGeneratePlan_steps P gen ok pid outline d = (Inr resp, d')"
    and ph: "ok (length (ops d))"
    and k: "k < length (steps outline)"
    and fail: "\<not> ok (length (ops d) + 1 + k)"
    and before: "\<forall>j < k. ok (length (ops d) + 1 + j)"
  shows "\<exists>generated.
     map step_key generated = map os_step_key (steps outline) \<and>
     (\<forall>r \<in> set generated. plan_id r = pid) \<and>
     ops d' = ops d @ [Insert (placeholders_from pid 0 (steps outline))]
                    @ map (\<lambda>s. Update pid (os_step_key s)) (take (Suc k) (steps outline))
                    @ [Delete pid, Insert generated] \<and>
     (ok (length (ops d) + k + 2) \<and> ok (length (ops d) + k + 3) \<longrightarrow>
        resp = Plan200 (step_count outline) generated \<and>
        filter (\<lambda>r. plan_id r = pid) (plan_steps d') = generated)"
proof -
  let ?ph = "placeholders_from pid 0 (steps outline)"
  obtain e1 d1 where i1: "db_insert ok ?ph d = (e1, d1)" by (cases "db_insert ok ?ph d")
  from db_insert_result [OF i1] ph
  have e1: "\<not> e1" and ops1: "ops d1 = ops d @ [Insert ?ph]" by simp_all
  obtain r2 d2 where g2: "generate_steps P gen ok pid 0 (steps outline) True [] d1 = (r2, d2)"
    by (cases "generate_steps P gen ok pid 0 (steps outline) True [] d1")
  from run i1 e1 g2 obtain ip generated where r2: "r2 = Inr (ip, generated)"
    by (cases r2) (auto simp: handleGeneratePlan_steps_def Let_def)
  note g2' = g2 [unfolded r2]
  have f1: "\<not> ok (length (ops d1) + k)" using fail ops1 by simp
  have b1: "\<forall>j < k. ok (length (ops d1) + j)" using before ops1 by simp
  from generate_steps_first_failure [OF g2' k f1 b1]
  have ip: "\<not> ip" and ops2: "ops d2 = ops d1 @ map (\<lambda>s. Update pid (os_step_key s))
      (take (Suc k) (steps outline))" by simp_all
  from generate_steps_rows [OF g2'] have keys: "map step_key generated = map os_step_key (steps outline)"
    and pl: "\<forall>r \<in> set generated. plan_id r = pid" by simp_all
  obtain e3 d3 where del: "db_delete ok pid d2 = (e3, d3)" by (cases "db_delete ok pid d2")
  obtain e4 d4 where ins: "db_insert ok generated d3 = (e4, d4)"
    by (cases "db_insert ok generated d3")
  from run i1 e1 g2' ip del ins
  have res: "resp = (if e4 then Plan500 else Plan200 (step_count outline) generated)"
    and d': "d' = d4"
    by (auto simp: handleGeneratePlan_steps_def Let_def split: if_splits)
  note D = db_delete_result [OF del]
  note I = db_insert_result [OF ins]
  have len2: "length (ops d2) = length (ops d) + k + 2"
    using ops1 ops2 k by simp
  have len3: "length (ops d3) = length (ops d) + k + 3" using D len2 by simp
  have ops4: "ops d4 = ops d @ [Insert ?ph]
                    @ map (\<lambda>s. Update pid (os_step_key s)) (take (Suc k) (steps outline))
                    @ [Delete pid, Insert generated]"
    using ops1 ops2 D I by simp
  have fin: "ok (length (ops d) + k + 2) \<and> ok (length (ops d) + k + 3) \<longrightarrow>
        resp = Plan200 (step_count outline) generated \<and>
        filter (\<lambda>r. plan_id r = pid) (plan_steps d') = generated"
  proof
    assume oks: "ok (length (ops d) + k + 2) \<and> ok (length (ops d) + k + 3)"
    with D len2 have p3: "plan_steps d3 = filter (\<lambda>r. plan_id r \<noteq> pid) (plan_steps d2)" by simp
    from oks I len3 have e4: "\<not> e4" and p4: "plan_steps d4 = plan_steps d3 @ generated" by simp_all
    from res e4 have "resp = Plan200 (step_count outline) generated" by simp
    moreover have "filter (\<lambda>r. plan_id r = pid) (plan_steps d') = generated"
      using p3 p4 pl d' by (simp add: filter_id_conv)
    ultimately show "resp = Plan200 (step_count outline) generated \<and>
        filter (\<lambda>r. plan_id r = pid) (plan_steps d') = generated" by simp
  qed
  from keys pl ops4 fin d' show ?thesis by blast
qed

lemma example_gen_normalized:
  "normalizeStepGen example_platform
     (example_step_raw k t (JNum (Finite 45))) k t =
   Inr \<lparr> sg_step_key = k, sg_title = t,
         sg_priority = str ''high'', sg_details = str ''Read the support handbook.'',
         sg_success_criteria = str ''Handbook read!'', sg_estimated_minutes = 45 \<rparr>"
  by (simp add: stepgen_eval clean_eval string_eval example_step_raw_def)

text \<open>
  Claim C5, as stated, fails when the delete fails: its outcome is not looked at, and the
  bulk insert that follows adds the generated rows to the placeholder rows still there. In
  the run below the update of \<open>step_2\<close> and the delete fail; six rows are persisted for
  the plan, two of them placeholders and each key twice.
\<close>

theorem bulk_insert_after_failed_delete:
  "handleGeneratePlan_steps example_platform example_gen (fails_at [2, 3]) (str ''plan-1'')
     example_plan_outline \<lparr> plan_steps = [], ops = [] \<rparr> =
   (Inr (Plan200 3 example_generated),
    \<lparr> plan_steps =
        [example_row 1 (str ''step_1'') (str ''Meet the support team''),
         example_placeholder 2 (str ''step_2'') (str ''Learn the ticket queue''),
         example_placeholder 3 (str ''step_3'') (str ''Shadow a senior agent'')]
        @ example_generated,
      ops = [Insert example_placeholders,
             Update (str ''plan-1'') (str ''step_1''), Update (str ''plan-1'') (str ''step_2''),
             Delete (str ''plan-1''), Insert example_generated] \<rparr>)"
  by (simp add: persist_eval example_gen_normalized string_eval)

theorem bulk_insert_fallback_witness:
  "handleGeneratePlan_steps example_platform example_gen (fails_at [2]) (str ''plan-1'')
     example_plan_outline \<lparr> plan_steps = [], ops = [] \<rparr> =
   (Inr (Plan200 3 example_generated),
    \<lparr> plan_steps = example_generated,
      ops = [Insert example_placeholders,
             Update (str ''plan-1'') (str ''step_1''), Update (str ''plan-1'') (str ''step_2''),
             Delete (str ''plan-1''), Insert example_generated] \<rparr>) \<and>
   fails_at [2] 0 \<and> fails_at [2] 1 \<and> \<not> fails_at [2] 2 \<and> fails_at [2] 3 \<and> fails_at [2] 4 \<and>
   (\<exists>generated.
      map step_key generated = map os_step_key (steps example_plan_outline) \<and>
      Plan200 3 example_generated = Plan200 (step_count example_plan_outline) generated \<and>
      filter (\<lambda>r. plan_id r = str ''plan-1'') example_generated = generated)"
proof -
  let ?d = "\<lparr> plan_steps = [], ops = [] \<rparr>"
  let ?d' = "\<lparr> plan_steps = example_generated,
      ops = [Insert example_placeholders,
             Update (str ''plan-1'') (str ''step_1''), Update (str ''plan-1'') (str ''step_2''),
             Delete (str ''plan-1''), Insert example_generated] \<rparr>"
  have run: "handleGeneratePlan_steps example_platform example_gen (fails_at [2]) (str ''plan-1'')
     example_plan_outline ?d = (Inr (Plan200 3 example_generated), ?d')"
    by (simp add: persist_eval example_gen_normalized string_eval)
  have ph: "fails_at [2] (length (ops ?d))" by (simp add: fails_at_def)
  have k: "(1::nat) < length (steps example_plan_outline)" by (simp add: example_plan_outline_def)
  have fail: "\<not> fails_at [2] (length (ops ?d) + 1 + 1)" by (simp add: fails_at_def)
  have before: "\<forall>j < (1::nat). fails_at [2] (length (ops ?d) + 1 + j)" by (simp add: fails_at_def)
  have oks: "fails_at [2] 0 \<and> fails_at [2] 1 \<and> \<not> fails_at [2] 2 \<and> fails_at [2] 3 \<and> fails_at [2] 4"
    by (simp add: fails_at_def)
  have ok23: "fails_at [2] (length (ops ?d) + 1 + 2) \<and> fails_at [2] (length (ops ?d) + 1 + 3)"
    by (simp add: fails_at_def)
  from bulk_insert_fallback [OF run ph k fail before] obtain generated where
    keys: "map step_key generated = map os_step_key (steps example_plan_outline)" and
    imp: "fails_at [2] (length (ops ?d) + 1 + 2) \<and> fails_at [2] (length (ops ?d) + 1 + 3) \<longrightarrow>
          Plan200 3 example_generated = Plan200 (step_count example_plan_outline) generated \<and>
          filter (\<lambda>r. plan_id r = str ''plan-1'') (plan_steps ?d') = generated"
    by blast
  from imp ok23 have
    "Plan200 3 example_generated = Plan200 (step_count example_plan_outline) generated"
    "filter (\<lambda>r. plan_id r = str ''plan-1'') (plan_steps ?d') = generated"
    by blast+
  with keys have "\<exists>generated.
      map step_key generated = map os_step_key (steps example_plan_outline) \<and>
      Plan200 3 example_generated = Plan200 (step_count example_plan_outline) generated \<and>
      filter (\<lambda>r. plan_id r = str ''plan-1'') example_generated = generated"
    by simp
  with run oks show ?thesis by blast
qed

section \<open>Collapsed white space\<close>

lemma is_space_32: "is_space 32" by (simp add: is_space_def)
lemma not_space_terminal: "c = 46 \<or> c = 33 \<or> c = 63 \<Longrightarrow> \<not> is_space c"
  by (auto simp: is_space_def)

lemma collapse_ws_hd:
  "xs = [] \<or> \<not> is_space (hd xs) \<Longrightarrow> collapse_ws xs = [] \<or> \<not> is_space (hd (collapse_ws xs))"
  by (cases xs) auto

lemma collapsed_collapse_ws: "collapsed (collapse_ws s)"
proof (induction s rule: collapse_ws.induct)
  case 1
  show ?case by simp
next
  case (2 c cs)
  show ?case
  proof (cases "is_space c")
    case True
    let ?r = "dropWhile is_space cs"
    have "?r = [] \<or> \<not> is_space (hd ?r)" by (metis hd_dropWhile)
    then have "collapse_ws ?r = [] \<or> \<not> is_space (hd (collapse_ws ?r))"
      by (rule collapse_ws_hd)
    with True 2 show ?thesis by simp
  next
    case False
    with 2 show ?thesis by simp
  qed
qed

lemma collapse_ws_fix: "collapsed t \<Longrightarrow> collapse_ws t = t"
proof (induction t)
  case Nil
  show ?case by simp
next
  case (Cons c cs)
  then have cs: "collapse_ws cs = cs" by simp
  show ?case
  proof (cases "is_space c")
    case True
    with Cons.prems have c: "c = 32" and h: "cs = [] \<or> \<not> is_space (hd cs)" by simp_all
    from h have "dropWhile is_space cs = cs" by (rule dropWhile_fix)
    with True c cs show ?thesis by simp
  next
    case False
    with cs show ?thesis by simp
  qed
qed

lemma collapsed_append_left: "collapsed (xs @ ys) \<Longrightarrow> collapsed xs"
proof (induction xs)
  case Nil
  show ?case by simp
next
  case (Cons c cs)
  then show ?case by (cases cs) auto
qed

lemma collapsed_append_right: "collapsed (xs @ ys) \<Longrightarrow> collapsed ys"
  by (induction xs) auto

lemma collapsed_snoc:
  "collapsed xs \<Longrightarrow> \<not> is_space c \<Longrightarrow> collapsed (xs @ [c])"
proof (induction xs)
  case Nil
  then show ?case by simp
next
  case (Cons x xs)
  then show ?case by (cases xs) auto
qed

lemma collapsed_adjacent:
  "collapsed t \<Longrightarrow> Suc i < length t \<Longrightarrow> is_space (t ! Suc i) \<Longrightarrow> \<not> is_space (t ! i)"
proof (induction t arbitrary: i)
  case Nil
  then show ?case by simp
next
  case (Cons c cs)
  show ?case
  proof (cases i)
    case 0
    with Cons.prems show ?thesis by (cases cs) auto
  next
    case (Suc j)
    with Cons.prems Cons.IH [of j] show ?thesis by simp
  qed
qed

lemma collapsed_straighten_double: "collapsed t \<Longrightarrow> collapsed (straighten_double t)"
proof (induction t)
  case Nil
  show ?case by (simp add: straighten_double_def)
next
  case (Cons c cs)
  have sp: "\<And>x. is_space (if x = 8220 \<or> x = 8221 then 34 else x) = is_space x"
    by (auto simp: is_space_def)
  from Cons show ?case
    by (cases cs) (auto simp: straighten_double_def sp is_space_def)
qed

lemma trim_decomp: "\<exists>pre post. s = pre @ trim s @ post"
proof -
  let ?a = "dropWhile is_space s"
  have "rev (takeWhile is_space (rev ?a) @ dropWhile is_space (rev ?a)) = rev (rev ?a)"
    by (simp only: takeWhile_dropWhile_id)
  then have "rev (dropWhile is_space (rev ?a)) @ rev (takeWhile is_space (rev ?a)) = ?a"
    by (simp only: rev_append rev_rev_ident)
  then have "?a = trim s @ rev (takeWhile is_space (rev ?a))"
    by (simp only: trim_def)
  moreover have "s = takeWhile is_space s @ ?a" by simp
  ultimately show ?thesis by metis
qed

lemma collapsed_trim: "collapsed t \<Longrightarrow> collapsed (trim t)"
proof -
  assume c: "collapsed t"
  obtain pre post where "t = pre @ trim t @ post" using trim_decomp by blast
  with c have "collapsed (pre @ trim t @ post)" by simp
  then show ?thesis using collapsed_append_left collapsed_append_right by blast
qed

lemma set_trim: "set (trim t) \<subseteq> set t"
proof -
  obtain pre post where "t = pre @ trim t @ post" using trim_decomp by blast
  then have "set t = set pre \<union> set (trim t) \<union> set post" by (metis set_append Un_assoc)
  then show ?thesis by blast
qed

lemma length_trim: "length (trim t) \<le> length t"
proof -
  obtain pre post where "t = pre @ trim t @ post" using trim_decomp by blast
  then have "length t = length pre + length (trim t) + length post" by (metis length_append add.assoc)
  then show ?thesis by simp
qed

lemma trim_same_length: "length (trim t) = length t \<Longrightarrow> trim t = t"
proof -
  assume l: "length (trim t) = length t"
  obtain pre post where d: "t = pre @ trim t @ post" using trim_decomp by blast
  then have "length t = length pre + length (trim t) + length post" by (metis length_append add.assoc)
  with l have "pre = []" "post = []" by simp_all
  with d show ?thesis by simp
qed

lemma trim_keeps_last:
  assumes "x \<noteq> []" and "\<not> is_space (last x)"
  shows "trim x \<noteq> [] \<and> last (trim x) = last x"
proof -
  let ?a = "dropWhile is_space x"
  have "last x \<in> set x" using assms(1) by simp
  with assms(2) have a: "?a \<noteq> []" by auto
  then have la: "last ?a = last x" by (rule last_dropWhile)
  have "hd (rev ?a) = last ?a" using a by (simp add: hd_rev)
  with la assms(2) have "dropWhile is_space (rev ?a) = rev ?a" by (intro dropWhile_fix) simp
  then have "trim x = ?a" by (simp add: trim_def)
  with a la show ?thesis by simp
qed

lemma collapse_ws_keeps_last:
  "s \<noteq> [] \<Longrightarrow> \<not> is_space (last s) \<Longrightarrow> collapse_ws s \<noteq> [] \<and> last (collapse_ws s) = last s"
proof (induction s rule: collapse_ws.induct)
  case 1
  then show ?case by simp
next
  case (2 c cs)
  show ?case
  proof (cases "is_space c")
    case True
    with 2(4) have cs: "cs \<noteq> []" by auto
    let ?r = "dropWhile is_space cs"
    have "last cs \<in> set cs" using cs by simp
    moreover have ls: "\<not> is_space (last cs)" using 2(4) cs by simp
    ultimately have r: "?r \<noteq> []" by auto
    then have lr: "last ?r = last cs" by (rule last_dropWhile)
    from 2(1) [OF True r] lr ls have "collapse_ws ?r \<noteq> [] \<and> last (collapse_ws ?r) = last cs" by simp
    with True cs show ?thesis by simp
  next
    case False
    show ?thesis
    proof (cases "cs = []")
      case True
      with False show ?thesis by simp
    next
      case ne: False
      with 2(4) have "\<not> is_space (last cs)" by simp
      from 2(2) [OF False ne this] False ne show ?thesis by simp
    qed
  qed
qed

lemma set_collapse_ws: "set (collapse_ws s) \<subseteq> insert 32 (set s)"
proof (induction s rule: collapse_ws.induct)
  case 1
  show ?case by simp
next
  case (2 c cs)
  have "set (dropWhile is_space cs) \<subseteq> set cs" by (rule set_dropWhileD [THEN subsetI])
  with 2 show ?case by (cases "is_space c") auto
qed

lemma length_collapse_ws: "length (collapse_ws s) \<le> length s"
proof (induction s rule: collapse_ws.induct)
  case 1
  show ?case by simp
next
  case (2 c cs)
  have "length (dropWhile is_space cs) \<le> length cs" by (rule length_dropWhile_le)
  with 2 show ?case by (cases "is_space c") auto
qed

section \<open>Index search\<close>

lemma indexOf_range:
  "indexOf s c = -1 \<or> (0 \<le> indexOf s c \<and> indexOf s c < int (length s) \<and> s ! nat (indexOf s c) = c)"
proof (induction s)
  case Nil
  show ?case by simp
next
  case (Cons x xs)
  show ?case
  proof (cases "x = c")
    case True
    then show ?thesis by simp
  next
    case False
    from Cons show ?thesis
    proof
      assume "indexOf xs c = -1"
      with False show ?thesis by simp
    next
      assume a: "0 \<le> indexOf xs c \<and> indexOf xs c < int (length xs) \<and> xs ! nat (indexOf xs c) = c"
      then have "nat (indexOf xs c + 1) = Suc (nat (indexOf xs c))" by arith
      with a False show ?thesis by (simp add: Let_def)
    qed
  qed
qed

lemma lastIndexOf_range:
  "lastIndexOf s c = -1 \<or>
   (0 \<le> lastIndexOf s c \<and> lastIndexOf s c < int (length s) \<and> s ! nat (lastIndexOf s c) = c)"
proof (cases "indexOf (rev s) c = -1")
  case True
  then show ?thesis by (simp add: lastIndexOf_def)
next
  case False
  let ?r = "indexOf (rev s) c"
  from False indexOf_range [of "rev s" c]
  have r: "0 \<le> ?r" "?r < int (length s)" "rev s ! nat ?r = c" by simp_all
  then have n: "nat ?r < length s" by simp
  have l: "lastIndexOf s c = int (length s) - 1 - ?r" using False by (simp add: lastIndexOf_def)
  have "nat (int (length s) - 1 - ?r) = length s - Suc (nat ?r)" using r by simp
  moreover have "rev s ! nat ?r = s ! (length s - Suc (nat ?r))" using n by (rule rev_nth)
  ultimately have "s ! nat (lastIndexOf s c) = c" using r(3) l by simp
  moreover have "0 \<le> lastIndexOf s c" "lastIndexOf s c < int (length s)" using l r by simp_all
  ultimately show ?thesis by simp
qed

lemma lastIndexOf_snoc: "x \<noteq> c \<Longrightarrow> lastIndexOf (p @ [x]) c = lastIndexOf p c"
  using indexOf_range [of "rev p" c] by (auto simp: lastIndexOf_def Let_def)

section \<open>Terminal punctuation\<close>

lemma ends_terminal_iff:
  "ends_terminal t \<longleftrightarrow> t \<noteq> [] \<and> (last t = 46 \<or> last t = 33 \<or> last t = 63)"
  by (cases t rule: rev_cases) (simp_all add: ends_terminal_def)

lemma dot: "str ''.'' = [46]"
  by (simp add: str_def)

section \<open>Cleaned text\<close>

lemma cleanText_tail:
  "cleanText P (JStr s) maxLen =
     clean_tail (trim (collapse_ws (remove_garbage
        (trim (straighten_single (straighten_double (collapse_ws s))))))) maxLen"
  by (simp add: cleanText_def clean_tail_def Let_def)

lemma cleanText_tidy:
  "tidy u \<Longrightarrow> remove_garbage u = u \<Longrightarrow> cleanText P (JStr u) maxLen = clean_tail u maxLen"
  by (simp add: cleanText_tail tidy_def collapse_ws_fix)

lemma straighten_double_fix: "straighten_double t = t \<longleftrightarrow> 8220 \<notin> set t \<and> 8221 \<notin> set t"
  unfolding straighten_double_def by (induction t) auto

lemma straighten_single_fix: "straighten_single t = t \<longleftrightarrow> 8216 \<notin> set t \<and> 8217 \<notin> set t"
  unfolding straighten_single_def by (induction t) auto

lemma tidy_empty: "tidy []"
  by (simp add: tidy_def trim_def straighten_double_def straighten_single_def)

lemma tidy_trim_take: "tidy t \<Longrightarrow> tidy (trim (take n t))"
proof -
  assume t: "tidy t"
  have "collapsed (take n t @ drop n t)" using t by (simp add: tidy_def)
  then have "collapsed (take n t)" by (rule collapsed_append_left)
  then have c: "collapsed (trim (take n t))" by (rule collapsed_trim)
  have "set (trim (take n t)) \<subseteq> set t"
    using set_trim [of "take n t"] set_take_subset [of n t] by blast
  then show ?thesis
    using t c by (auto simp: tidy_def trim_idem straighten_double_fix straighten_single_fix)
qed

lemma tidy_snoc_dot:
  assumes "tidy t" and "t \<noteq> []"
  shows "tidy (t @ [46])"
proof -
  from assms have tr: "trim t \<noteq> []" by (simp add: tidy_def)
  from trim_ends [OF tr] assms have h: "\<not> is_space (hd t)" by (simp add: tidy_def)
  have d: "\<not> is_space 46" by (simp add: is_space_def)
  have "collapsed (t @ [46])" using assms(1) d by (simp add: tidy_def collapsed_snoc)
  moreover have "trim (t @ [46]) = t @ [46]"
    using h d assms(2) by (intro trim_fix) simp
  ultimately show ?thesis
    using assms(1) by (simp add: tidy_def straighten_double_fix straighten_single_fix)
qed

lemma clean_tail_short:
  "length u \<le> maxLen \<Longrightarrow> u = [] \<or> ends_terminal u \<Longrightarrow> clean_tail u maxLen = u"
  by (auto simp: clean_tail_def)

lemma tidy_hd: "tidy t \<Longrightarrow> t \<noteq> [] \<Longrightarrow> \<not> is_space (hd t)"
  using trim_ends(1) [of t] by (simp add: tidy_def)

lemma cut_position:
  assumes t: "tidy t" and len: "length t = maxLen + 1" and fin: "ends_terminal t"
    and cut: "lastIndexOf t 32 > 20"
  shows "nat (lastIndexOf t 32) < maxLen \<and>
         trim (take (nat (lastIndexOf t 32)) t) = take (nat (lastIndexOf t 32)) t \<and>
         length (take (nat (lastIndexOf t 32)) t) = nat (lastIndexOf t 32)"
proof -
  let ?n = "nat (lastIndexOf t 32)"
  from cut lastIndexOf_range [of t 32]
  have r: "lastIndexOf t 32 < int (length t)" "t ! ?n = 32" by auto
  then have n: "?n < length t" using cut by simp
  have "t \<noteq> []" using len by auto
  then have "last t = t ! (length t - 1)" by (rule last_conv_nth)
  then have "last t = t ! maxLen" using len by simp
  with fin have "t ! maxLen \<noteq> 32" by (auto simp: ends_terminal_iff)
  with r(2) have "?n \<noteq> maxLen" by auto
  with n len have lt: "?n < maxLen" by simp
  have pos: "0 < ?n" using cut by simp
  then obtain m where m: "?n = Suc m" by (cases ?n) simp_all
  have sp: "is_space (t ! Suc m)" using r(2) m by (simp add: is_space_def)
  have "collapsed t" using t by (simp add: tidy_def)
  from collapsed_adjacent [OF this _ sp] n m have ns: "\<not> is_space (t ! m)" by simp
  have ne: "take ?n t \<noteq> []" using pos n by auto
  have "take (Suc m) t = take m t @ [t ! m]" using n m by (simp add: take_Suc_conv_app_nth)
  then have "last (take ?n t) = t ! m" using m by simp
  moreover have "hd (take ?n t) = hd t" using pos by (simp add: hd_take)
  moreover have "\<not> is_space (hd t)" using t n by (intro tidy_hd) auto
  ultimately have "trim (take ?n t) = take ?n t" using ns ne by (intro trim_fix) simp
  with lt n show ?thesis by simp
qed

lemma clean_tail_tidy_fixed:
  assumes t: "tidy t" and len: "length t \<le> maxLen + 1" and fin: "t = [] \<or> ends_terminal t"
  shows "tidy (clean_tail t maxLen) \<and> clean_tail (clean_tail t maxLen) maxLen = clean_tail t maxLen"
proof (cases "length t \<le> maxLen")
  case True
  from clean_tail_short [OF True fin] have "clean_tail t maxLen = t" .
  with t show ?thesis by simp
next
  case False
  with len have l: "length t = maxLen + 1" by simp
  then have ne: "t \<noteq> []" by auto
  with fin have et: "ends_terminal t" by simp
  have full: "take (Suc maxLen) t = t" using l by simp
  define cut where "cut = lastIndexOf t 32"
  define m where "m = (if cut > 20 then nat cut else maxLen)"
  define t3 where "t3 = trim (take m t)"
  define u where "u = (if t3 \<noteq> [] \<and> \<not> ends_terminal t3 then t3 @ [46] else t3)"
  have ct: "clean_tail t maxLen = u"
    using False
    by (simp add: clean_tail_def lastIndexOf_from_def full slice_def Let_def dot
                  u_def t3_def m_def cut_def)
  have t3: "tidy t3" unfolding t3_def using t by (rule tidy_trim_take)
  have tu: "tidy u" unfolding u_def using t3 by (simp add: tidy_snoc_dot)
  have eu: "u = [] \<or> ends_terminal u"
    unfolding u_def by (auto simp: ends_terminal_iff)
  have mle: "m \<le> maxLen"
    using cut_position [OF t l et] by (auto simp: m_def cut_def)
  have l3: "length t3 \<le> m"
    unfolding t3_def using length_trim [of "take m t"] by simp
  show ?thesis
  proof (cases "length u \<le> maxLen")
    case True
    from clean_tail_short [OF True eu] tu ct show ?thesis by simp
  next
    case long: False
    have u3: "u = t3 @ [46]" and lt3: "length t3 = maxLen"
      using long l3 mle by (auto simp: u_def split: if_splits)
    have nocut: "\<not> cut > 20"
    proof
      assume c: "cut > 20"
      then have "m < maxLen" using cut_position [OF t l et] by (simp add: m_def cut_def)
      with l3 lt3 show False by simp
    qed
    then have mm: "m = maxLen" by (simp add: m_def)
    define p where "p = take maxLen t"
    have lp: "length p = maxLen" using l by (simp add: p_def)
    have "length (trim p) = length p" using lt3 lp by (simp add: t3_def mm p_def)
    then have tp: "trim p = p" by (rule trim_same_length)
    then have t3p: "t3 = p" by (simp add: t3_def mm p_def)
    have net: "\<not> ends_terminal p" and ne3: "p \<noteq> []"
      using u3 t3p by (auto simp: u_def split: if_splits)
    have "butlast t = p" using l by (simp add: butlast_conv_take p_def)
    then have tsplit: "t = p @ [last t]" using ne by (metis append_butlast_last_id)
    have "last t \<noteq> 32" using et by (auto simp: ends_terminal_iff)
    then have "lastIndexOf (p @ [last t]) 32 = lastIndexOf p 32" by (rule lastIndexOf_snoc)
    with tsplit have c1: "lastIndexOf p 32 = cut" by (simp add: cut_def)
    have "lastIndexOf (p @ [46]) 32 = lastIndexOf p 32" by (rule lastIndexOf_snoc) simp
    with c1 have c2: "lastIndexOf (p @ [46]) 32 = cut" by simp
    have lf: "lastIndexOf_from (p @ [46]) 32 maxLen = cut"
      by (simp add: lastIndexOf_from_def lp c2)
    have sl: "slice (p @ [46]) 0 maxLen = p" by (simp add: slice_def lp)
    have up: "u = p @ [46]" using u3 t3p by simp
    have "clean_tail (p @ [46]) maxLen = p @ [46]"
      using nocut ne3 net by (simp add: clean_tail_def Let_def lf sl tp lp dot)
    then have "clean_tail u maxLen = u" using up by simp
    with tu ct show ?thesis by simp
  qed
qed

section \<open>Garbage fragments\<close>

lemma set_remove_garbage: "set (remove_garbage x) \<subseteq> set x"
proof (induction x rule: remove_garbage.induct)
  case 1
  show ?case by simp
next
  case (2 c cs)
  show ?case
  proof (cases "garbage_match (c # cs)")
    case None
    with 2 show ?thesis by auto
  next
    case (Some n)
    have "set (drop n (c # cs)) \<subseteq> set (c # cs)" by (rule set_drop_subset)
    with 2(2) [OF Some] Some show ?thesis by auto
  qed
qed

lemma length_remove_garbage: "length (remove_garbage x) \<le> length x"
proof (induction x rule: remove_garbage.induct)
  case 1
  show ?case by simp
next
  case (2 c cs)
  show ?case
  proof (cases "garbage_match (c # cs)")
    case None
    with 2 show ?thesis by auto
  next
    case (Some n)
    have "length (drop n (c # cs)) \<le> length (c # cs)" by simp
    with 2(2) [OF Some] Some show ?thesis by auto
  qed
qed

lemma matches_ci_last:
  assumes "matches_ci pat r" and "length r = length pat" and "pat \<noteq> []"
  shows "ascii_lower (last r) = last pat"
proof -
  from assms have "map ascii_lower r = pat" by (simp add: matches_ci_def)
  moreover have "r \<noteq> []" using assms by auto
  ultimately show ?thesis by (metis last_map)
qed

lemma terminal_lower: "c = 46 \<or> c = 33 \<or> c = 63 \<Longrightarrow> ascii_lower c = c"
  by (auto simp: ascii_lower_def)

lemma garbage_match_inside:
  assumes m: "garbage_match x = Some n" and ne: "x \<noteq> []"
    and lt: "last x = 46 \<or> last x = 33 \<or> last x = 63"
  shows "n < length x"
proof -
  from m obtain c cs where x: "x = c # cs" by (cases x) (simp_all add: garbage_match_def)
  define r where "r = dropWhile is_space cs"
  have lr: "length r \<le> length cs" unfolding r_def by (rule length_dropWhile_le)
  have lens: "length (str ''end-user'') = 8" "length (str ''thelived'') = 8"
    "length (str ''ty'') = 2" by (simp_all add: str_def)
  have lasts: "last (str ''end-user'') = 114" "last (str ''thelived'') = 100"
    "last (str ''ty'') = 121" by (simp_all add: str_def)
  from m x have
    "(matches_ci (str ''end-user'') r \<and> n = 1 + (length cs - length r) + 8) \<or>
     (matches_ci (str ''thelived'') r \<and> n = 1 + (length cs - length r) + 8) \<or>
     (matches_ci (str ''ty'') r \<and> n = 1 + (length cs - length r) + 2)"
    by (auto simp: garbage_match_def Let_def r_def split: if_splits)
  with lens obtain pat where
    pat: "pat = str ''end-user'' \<or> pat = str ''thelived'' \<or> pat = str ''ty''" and
    mt: "matches_ci pat r" and n: "n = 1 + (length cs - length r) + length pat"
    by metis
  from mt have pl: "length pat \<le> length r" by (simp add: matches_ci_def)
  have pne: "pat \<noteq> []" using pat lens by auto
  have "length r \<noteq> length pat"
  proof
    assume e: "length r = length pat"
    from matches_ci_last [OF mt e pne] have al: "ascii_lower (last r) = last pat" .
    have rne: "r \<noteq> []" using e pne by auto
    then have "last r = last cs" unfolding r_def by (rule last_dropWhile)
    moreover have "cs \<noteq> []" using rne r_def by auto
    ultimately have "last r = last x" using x by simp
    with lt terminal_lower have "ascii_lower (last r) = last x" by metis
    with al lt pat lasts show False by auto
  qed
  with pl lr n x show ?thesis by simp
qed

lemma remove_garbage_keeps_last:
  "x \<noteq> [] \<Longrightarrow> last x = 46 \<or> last x = 33 \<or> last x = 63 \<Longrightarrow>
   remove_garbage x \<noteq> [] \<and> last (remove_garbage x) = last x"
proof (induction x rule: remove_garbage.induct)
  case 1
  then show ?case by simp
next
  case (2 c cs)
  show ?case
  proof (cases "garbage_match (c # cs)")
    case None
    show ?thesis
    proof (cases "cs = []")
      case True
      with None show ?thesis by simp
    next
      case False
      with 2(4) have "last cs = 46 \<or> last cs = 33 \<or> last cs = 63" by simp
      from 2(1) [OF None False this] None False show ?thesis by simp
    qed
  next
    case (Some n)
    from garbage_match_inside [OF Some 2(3) 2(4)] have n: "n < length (c # cs)" .
    then have d: "drop n (c # cs) \<noteq> []" by simp
    have l: "last (drop n (c # cs)) = last (c # cs)" using n by (rule last_drop)
    from 2(2) [OF Some d] l 2(4) Some show ?thesis by simp
  qed
qed

section \<open>The normalized text\<close>

lemma straightened_double: "8220 \<notin> set (straighten_double x) \<and> 8221 \<notin> set (straighten_double x)"
  by (auto simp: straighten_double_def)

lemma straightened_single:
  "8216 \<notin> set (straighten_single x) \<and> 8217 \<notin> set (straighten_single x) \<and>
   (8220 \<notin> set x \<longrightarrow> 8220 \<notin> set (straighten_single x)) \<and>
   (8221 \<notin> set x \<longrightarrow> 8221 \<notin> set (straighten_single x))"
  by (auto simp: straighten_single_def)

lemma normalized_tidy:
  "tidy (trim (collapse_ws (remove_garbage
     (trim (straighten_single (straighten_double (collapse_ws s)))))))"
proof -
  let ?q = "straighten_single (straighten_double (collapse_ws s))"
  let ?t2 = "trim (collapse_ws (remove_garbage (trim ?q)))"
  have q: "8216 \<notin> set ?q \<and> 8217 \<notin> set ?q \<and> 8220 \<notin> set ?q \<and> 8221 \<notin> set ?q"
    using straightened_single [of "straighten_double (collapse_ws s)"]
      straightened_double [of "collapse_ws s"] by simp
  have "set ?t2 \<subseteq> insert 32 (set ?q)"
    using set_trim [of "collapse_ws (remove_garbage (trim ?q))"]
      set_collapse_ws [of "remove_garbage (trim ?q)"]
      set_remove_garbage [of "trim ?q"] set_trim [of ?q]
    by blast
  with q have n: "8216 \<notin> set ?t2 \<and> 8217 \<notin> set ?t2 \<and> 8220 \<notin> set ?t2 \<and> 8221 \<notin> set ?t2"
    by auto
  have "collapsed ?t2" by (intro collapsed_trim collapsed_collapse_ws)
  with n show ?thesis
    by (simp add: tidy_def trim_idem straighten_double_fix straighten_single_fix)
qed

lemma normalized_length:
  "length (trim (collapse_ws (remove_garbage
     (trim (straighten_single (straighten_double (collapse_ws s))))))) \<le> length s"
proof -
  let ?q = "straighten_single (straighten_double (collapse_ws s))"
  have "length (trim (collapse_ws (remove_garbage (trim ?q)))) \<le>
        length (collapse_ws (remove_garbage (trim ?q)))" by (rule length_trim)
  also have "\<dots> \<le> length (remove_garbage (trim ?q))" by (rule length_collapse_ws)
  also have "\<dots> \<le> length (trim ?q)" by (rule length_remove_garbage)
  also have "\<dots> \<le> length ?q" by (rule length_trim)
  also have "\<dots> = length (collapse_ws s)"
    by (simp add: straighten_single_def straighten_double_def)
  also have "\<dots> \<le> length s" by (rule length_collapse_ws)
  finally show ?thesis .
qed

lemma normalized_terminal:
  assumes "ends_terminal s"
  shows "ends_terminal (trim (collapse_ws (remove_garbage
     (trim (straighten_single (straighten_double (collapse_ws s)))))))"
proof -
  from assms have s: "s \<noteq> []" and ls: "last s = 46 \<or> last s = 33 \<or> last s = 63"
    by (simp_all add: ends_terminal_iff)
  note ns = not_space_terminal
  let ?a = "collapse_ws s"
  from collapse_ws_keeps_last [OF s ns [OF ls]]
  have a: "?a \<noteq> []" "last ?a = last s" by simp_all
  let ?q = "straighten_single (straighten_double ?a)"
  have q: "?q \<noteq> []" using a by (simp add: straighten_single_def straighten_double_def)
  have "last ?q = (\<lambda>c. if c = 8216 \<or> c = 8217 then 39 else c)
                    ((\<lambda>c. if c = 8220 \<or> c = 8221 then 34 else c) (last ?a))"
    using a(1) by (simp add: straighten_single_def straighten_double_def last_map)
  with a(2) ls have lq: "last ?q = last s" by auto
  from trim_keeps_last [OF q] lq ns [OF ls]
  have b: "trim ?q \<noteq> []" "last (trim ?q) = last s" by simp_all
  from remove_garbage_keeps_last [OF b(1)] b(2) ls
  have c: "remove_garbage (trim ?q) \<noteq> []" "last (remove_garbage (trim ?q)) = last s" by simp_all
  from collapse_ws_keeps_last [OF c(1)] c(2) ns [OF ls]
  have d: "collapse_ws (remove_garbage (trim ?q)) \<noteq> []"
    "last (collapse_ws (remove_garbage (trim ?q))) = last s" by simp_all
  from trim_keeps_last [OF d(1)] d(2) ns [OF ls]
  have "trim (collapse_ws (remove_garbage (trim ?q))) \<noteq> []"
    "last (trim (collapse_ws (remove_garbage (trim ?q)))) = last s" by simp_all
  with ls show ?thesis by (simp add: ends_terminal_iff)
qed

lemma normalized_empty:
  "trim (collapse_ws (remove_garbage
     (trim (straighten_single (straighten_double (collapse_ws []))))))  = []"
  by (simp add: straighten_single_def straighten_double_def trim_def)

lemma remove_garbage_no_apostrophe: "39 \<notin> set x \<Longrightarrow> remove_garbage x = x"
proof (induction x)
  case Nil
  show ?case by simp
next
  case (Cons c cs)
  then have "garbage_match (c # cs) = None" by (simp add: garbage_match_def)
  with Cons show ?case by simp
qed

lemma set_clean_tail: "set (clean_tail t maxLen) \<subseteq> insert 46 (set t)"
proof -
  have "set (trim (take n t)) \<subseteq> set t" for n
    using set_trim [of "take n t"] set_take_subset [of n t] by blast
  then show ?thesis
    by (auto simp: clean_tail_def Let_def slice_def dot)
qed

lemma cleanText_no_apostrophe:
  assumes "39 \<notin> set s" and "8216 \<notin> set s" and "8217 \<notin> set s"
  shows "39 \<notin> set (cleanText P (JStr s) maxLen)"
proof -
  let ?a = "collapse_ws s"
  let ?q = "straighten_single (straighten_double ?a)"
  let ?t2 = "trim (collapse_ws (remove_garbage (trim ?q)))"
  from assms set_collapse_ws [of s]
  have a: "39 \<notin> set ?a \<and> 8216 \<notin> set ?a \<and> 8217 \<notin> set ?a" by auto
  then have "39 \<notin> set ?q" by (auto simp: straighten_single_def straighten_double_def)
  moreover have "set ?t2 \<subseteq> insert 32 (set ?q)"
    using set_trim [of "collapse_ws (remove_garbage (trim ?q))"]
      set_collapse_ws [of "remove_garbage (trim ?q)"]
      set_remove_garbage [of "trim ?q"] set_trim [of ?q]
    by blast
  ultimately have "39 \<notin> set ?t2" by auto
  with set_clean_tail [of ?t2 maxLen] show ?thesis
    unfolding cleanText_tail by auto
qed

lemma cleanText_refixed:
  assumes "length s \<le> maxLen + 1"
    and "s = [] \<or> ends_terminal s"
    and "remove_garbage (cleanText P (JStr s) maxLen) = cleanText P (JStr s) maxLen"
  shows "cleanText P (JStr (cleanText P (JStr s) maxLen)) maxLen = cleanText P (JStr s) maxLen"
proof -
  let ?t2 = "trim (collapse_ws (remove_garbage
     (trim (straighten_single (straighten_double (collapse_ws s))))))"
  have c: "cleanText P (JStr s) maxLen = clean_tail ?t2 maxLen" by (rule cleanText_tail)
  have t: "tidy ?t2" by (rule normalized_tidy)
  have l: "length ?t2 \<le> maxLen + 1" using normalized_length [of s] assms(1) by simp
  have e: "?t2 = [] \<or> ends_terminal ?t2"
    using assms(2) normalized_terminal [of s] normalized_empty by auto
  from clean_tail_tidy_fixed [OF t l e]
  have tu: "tidy (clean_tail ?t2 maxLen)"
    and fx: "clean_tail (clean_tail ?t2 maxLen) maxLen = clean_tail ?t2 maxLen" by simp_all
  from assms(3) have g: "remove_garbage (clean_tail ?t2 maxLen) = clean_tail ?t2 maxLen"
    unfolding c .
  from cleanText_tidy [OF tu g] fx show ?thesis unfolding c by simp
qed

text \<open>
  Claim C9, amended. Let \<open>s\<close> satisfy the output invariants of \<open>cleanText\<close> for
  \<open>maxLen\<close>: at most \<open>maxLen + 1\<close> code units, and terminal punctuation at the end
  unless it is empty. If the cleaned text holds no garbage fragment any more (the
  replacement of the garbage pattern leaves it unchanged), cleaning it again gives the same
  text. That is so whenever \<open>s\<close> has no apostrophe, straight or curly.
\<close>

theorem cleanText_idempotent_clean:
  assumes "length s \<le> maxLen + 1" and "s = [] \<or> ends_terminal s"
  shows
   "(remove_garbage (cleanText P (JStr s) maxLen) = cleanText P (JStr s) maxLen \<longrightarrow>
       cleanText P (JStr (cleanText P (JStr s) maxLen)) maxLen = cleanText P (JStr s) maxLen) \<and>
    (39 \<notin> set s \<and> 8216 \<notin> set s \<and> 8217 \<notin> set s \<longrightarrow>
       remove_garbage (cleanText P (JStr s) maxLen) = cleanText P (JStr s) maxLen)"
  using cleanText_refixed [OF assms, of P] cleanText_no_apostrophe [of s P maxLen]
    remove_garbage_no_apostrophe [of "cleanText P (JStr s) maxLen"]
  by blast

theorem cleanText_idempotent_clean_witness:
  "length (str ''Introduce yourself to the team.'') \<le> 30 + 1 \<and>
   ends_terminal (str ''Introduce yourself to the team.'') \<and>
   cleanText example_platform (JStr (str ''Introduce yourself to the team.'')) 30 =
     str ''Introduce yourself to the.'' \<and>
   remove_garbage (str ''Introduce yourself to the.'') = str ''Introduce yourself to the.'' \<and>
   cleanText example_platform (JStr (str ''Introduce yourself to the.'')) 30 =
     str ''Introduce yourself to the.''"
proof -
  let ?s = "str ''Introduce yourself to the team.''"
  have l: "length ?s \<le> 30 + 1" by (simp add: str_def)
  have e': "ends_terminal ?s" by (simp add: str_def ends_terminal_def)
  then have e: "?s = [] \<or> ends_terminal ?s" by simp
  have c: "cleanText example_platform (JStr ?s) 30 = str ''Introduce yourself to the.''"
    by (simp add: clean_eval string_eval)
  have g: "remove_garbage (str ''Introduce yourself to the.'') = str ''Introduce yourself to the.''"
    by (simp add: clean_eval string_eval)
  from cleanText_idempotent_clean [OF l e, of example_platform] c g
  have "cleanText example_platform (JStr (str ''Introduce yourself to the.'')) 30 =
     str ''Introduce yourself to the.''" by simp
  with l e' c g show ?thesis by simp
qed

text \<open>
  Claim C9, as stated, fails: the garbage pattern is replaced in one pass, and removing a
  fragment can put an apostrophe in front of another \<open>ty\<close>. The input below satisfies
  the invariants for \<open>maxLen = 100\<close>; cleaning it leaves a fragment that the second
  cleaning removes.
\<close>

theorem cleanText_new_garbage:
  "length (str ''Ask the users' 'ty ty.'') \<le> 100 + 1 \<and>
   ends_terminal (str ''Ask the users' 'ty ty.'') \<and>
   cleanText example_platform (JStr (str ''Ask the users' 'ty ty.'')) 100 = str ''Ask the users' ty.'' \<and>
   cleanText example_platform (JStr (cleanText example_platform (JStr (str ''Ask the users' 'ty ty.'')) 100)) 100
     = str ''Ask the users.'' \<and>
   cleanText example_platform (JStr (cleanText example_platform (JStr (str ''Ask the users' 'ty ty.'')) 100)) 100
     \<noteq> cleanText example_platform (JStr (str ''Ask the users' 'ty ty.'')) 100"
proof -
  have a: "cleanText example_platform (JStr (str ''Ask the users' 'ty ty.'')) 100 = str ''Ask the users' ty.''"
    by (simp add: clean_eval string_eval)
  have b: "cleanText example_platform (JStr (str ''Ask the users' ty.'')) 100 = str ''Ask the users.''"
    by (simp add: clean_eval string_eval)
  have c: "str ''Ask the users.'' \<noteq> str ''Ask the users' ty.''" by (simp add: str_def)
  have d: "length (str ''Ask the users' 'ty ty.'') \<le> 100 + 1" by (simp add: str_def)
  have e: "ends_terminal (str ''Ask the users' 'ty ty.'')" by (simp add: str_def ends_terminal_def)
  from a b c d e show ?thesis by simp
qed

end
